theory Spec2Isabelle
  imports Complex_Main "HOL-Library.Word" "HOL-Library.Signed_Division"
begin

text \<open>
  A shallow embedding of kubewatch's configuration (config/config.go) and of its
  controller (pkg/controller/controller.go), and the properties of both that the
  specification states as C1 to C10. Go structs are records, the package variables and
  the state of a controller are passed explicitly, errors are values, and what the
  controller is linked against (the informer's store, the handler, the key functions)
  is a parameter.
\<close>

section \<open>Configuration (config/config.go)\<close>

text \<open>
  The structs of package config. The handler block of \<open>Config\<close> (tokens and URLs of the
  notification sinks) is read by none of the functions below and is left out. The field
  \<open>Namespace\<close> of \<open>Config\<close> is written \<open>Config_Namespace\<close>, since \<open>Resource\<close> has a
  field of the same name.
\<close>

record Resource =
  Deployment :: bool
  ReplicationController :: bool
  ReplicaSet :: bool
  DaemonSet :: bool
  Service :: bool
  Pod :: bool
  Job :: bool
  PersistentVolume :: bool
  Namespace :: bool
  Secret :: bool
  ConfigMap :: bool
  Ingress :: bool

record config_Event =
  Global :: "string list"
  Create :: "string list"
  Update :: "string list"
  Delete :: "string list"

record Config =
  Resource :: Resource
  Config_Namespace :: "string list"
  Event :: config_Event

text \<open>The zero value \<open>Resource{}\<close>: every flag false.\<close>

definition Resource_zero :: Resource where
  "Resource_zero =
     \<lparr>Deployment = False, ReplicationController = False, ReplicaSet = False,
      DaemonSet = False, Service = False, Pod = False, Job = False,
      PersistentVolume = False, Namespace = False, Secret = False, ConfigMap = False,
      Ingress = False\<rparr>"

text \<open>
  One step of \<open>UnmarshallConfig\<close>'s first branch:
  \<^verbatim>\<open>if flag { c.Event.Global = append(c.Event.Global, name) }\<close>.
\<close>

definition appendGlobal :: "bool \<Rightarrow> string \<Rightarrow> Config \<Rightarrow> Config" where
  "appendGlobal flag name c =
     (if flag then c\<lparr>Event := (Event c)\<lparr>Global := Global (Event c) @ [name]\<rparr>\<rparr> else c)"

text \<open>The body of the loop of \<open>configureEvents\<close>: the switch on one list entry.\<close>

definition configureEvent :: "string \<Rightarrow> Resource \<Rightarrow> Resource" where
  "configureEvent s r =
     (if s = ''deployment'' then r\<lparr>Deployment := True\<rparr>
      else if s = ''replicationcontroller'' then r\<lparr>ReplicationController := True\<rparr>
      else if s = ''replicaset'' then r\<lparr>ReplicaSet := True\<rparr>
      else if s = ''daemonset'' then r\<lparr>DaemonSet := True\<rparr>
      else if s = ''service'' then r\<lparr>Service := True\<rparr>
      else if s = ''pod'' then r\<lparr>Pod := True\<rparr>
      else if s = ''job'' then r\<lparr>Job := True\<rparr>
      else if s = ''persistentvolume'' then r\<lparr>PersistentVolume := True\<rparr>
      else if s = ''namespace'' then r\<lparr>Namespace := True\<rparr>
      else if s = ''secret'' then r\<lparr>Secret := True\<rparr>
      else if s = ''configmap'' then r\<lparr>ConfigMap := True\<rparr>
      else if s = ''ingress'' then r\<lparr>Ingress := True\<rparr>
      else r)"

fun configureEvents :: "string list \<Rightarrow> Config \<Rightarrow> Config" where
  "configureEvents [] c = c"
| "configureEvents (s # ss) c =
     configureEvents ss (c\<lparr>Resource := configureEvent s (Resource c)\<rparr>)"

text \<open>
  \<open>UnmarshallConfig\<close>: with a non-empty resource block every enabled resource is appended
  to the global event list, in the order of the source; otherwise the resource flags are
  set from the four event lists.
\<close>

definition UnmarshallConfig :: "Config \<Rightarrow> Config" where
  "UnmarshallConfig c =
     (if Resource c \<noteq> Resource_zero then
        (appendGlobal (Ingress (Resource c)) ''ingress''
         \<circ> appendGlobal (ConfigMap (Resource c)) ''configmap''
         \<circ> appendGlobal (Secret (Resource c)) ''secret''
         \<circ> appendGlobal (PersistentVolume (Resource c)) ''persistentvolume''
         \<circ> appendGlobal (Job (Resource c)) ''job''
         \<circ> appendGlobal (Service (Resource c)) ''service''
         \<circ> appendGlobal (ReplicationController (Resource c)) ''replicationcontroller''
         \<circ> appendGlobal (Pod (Resource c)) ''pod''
         \<circ> appendGlobal (Deployment (Resource c)) ''deployment''
         \<circ> appendGlobal (Namespace (Resource c)) ''namespace''
         \<circ> appendGlobal (ReplicaSet (Resource c)) ''replicaset''
         \<circ> appendGlobal (DaemonSet (Resource c)) ''demonset'') c
      else
        (configureEvents (Delete (Event c))
         \<circ> configureEvents (Update (Event c))
         \<circ> configureEvents (Create (Event c))
         \<circ> configureEvents (Global (Event c))) c)"

section \<open>The controller (pkg/controller/controller.go)\<close>

subsection \<open>Package variables and the event filter maps\<close>

text \<open>
  \<open>time.Time\<close> is a wall-clock instant in nanoseconds; the package variables are the
  start time and the four maps \<open>map[string]uint8\<close>. A nil map and an empty map answer
  every lookup alike, so both are \<open>Map.empty\<close>.
\<close>

type_synonym Time = int

record pkg_vars =
  serverStartTime :: Time
  global :: "string \<rightharpoonup> 8 word"
  create :: "string \<rightharpoonup> 8 word"
  delete :: "string \<rightharpoonup> 8 word"
  update :: "string \<rightharpoonup> 8 word"

text \<open>
  \<^verbatim>\<open>if len(l) > 0 { m = make(map[string]uint8); for _, r := range l { m[r] = 0 } }\<close>
\<close>

definition loadList :: "string list \<Rightarrow> (string \<rightharpoonup> 8 word) \<Rightarrow> (string \<rightharpoonup> 8 word)" where
  "loadList l m = (if length l > 0 then foldl (\<lambda>m' r. m'(r \<mapsto> 0)) Map.empty l else m)"

definition loadEventConfig :: "Config \<Rightarrow> pkg_vars \<Rightarrow> pkg_vars" where
  "loadEventConfig c p =
     p\<lparr>global := loadList (Global (Event c)) (global p),
       create := loadList (Create (Event c)) (create p),
       update := loadList (Update (Event c)) (update p),
       delete := loadList (Delete (Event c)) (delete p)\<rparr>"

text \<open>
  \<open>Start\<close>, as far as it decides which controllers exist: the resource type (and
  the namespace, for a namespaced informer) of every controller it creates with
  \<open>newResourceController\<close>, in the order of the source. An empty namespace list is first replaced by the list holding
  the empty string (all namespaces).
\<close>

definition perNamespace :: "bool \<Rightarrow> string \<Rightarrow> string list \<Rightarrow> (string \<times> string option) list" where
  "perNamespace flag resourceType nss =
     (if flag then map (\<lambda>ns. (resourceType, Some ns)) nss else [])"

definition clusterWide :: "bool \<Rightarrow> string \<Rightarrow> (string \<times> string option) list" where
  "clusterWide flag resourceType = (if flag then [(resourceType, None)] else [])"

definition Start :: "Config \<Rightarrow> (string \<times> string option) list" where
  "Start conf =
     (let nss = (if length (Config_Namespace conf) = 0 then Config_Namespace conf @ ['''']
                 else Config_Namespace conf);
          r = Resource conf
      in perNamespace (Pod r) ''pod'' nss
       @ perNamespace (DaemonSet r) ''daemonset'' nss
       @ perNamespace (ReplicaSet r) ''replicaset'' nss
       @ perNamespace (Service r) ''service'' nss
       @ perNamespace (Deployment r) ''deployment'' nss
       @ clusterWide (Namespace r) ''namespace''
       @ perNamespace (ReplicationController r) ''replication controller'' nss
       @ perNamespace (Job r) ''job'' nss
       @ clusterWide (PersistentVolume r) ''persistent volume''
       @ perNamespace (Secret r) ''secret'' nss
       @ perNamespace (ConfigMap r) ''configmap'' nss
       @ perNamespace (Ingress r) ''ingress'' nss)"

subsection \<open>Time arithmetic of the start-up check\<close>

text \<open>
  \<open>time.Duration\<close> is a signed 64-bit count of nanoseconds. \<open>Time.Sub\<close> saturates at the
  largest and smallest duration. \<open>Duration.Seconds\<close> adds the whole seconds and the
  remaining nanoseconds over \<open>1e9\<close>, both taken by Go's truncating division; the sum is
  a float64 in the source and an exact real here (the source only tests its sign, which
  rounding keeps).
\<close>

type_synonym Duration = int

definition Second :: Duration where
  "Second = 1000000000"

definition maxDuration :: Duration where
  "maxDuration = 2 ^ 63 - 1"

definition minDuration :: Duration where
  "minDuration = - (2 ^ 63)"

definition Sub :: "Time \<Rightarrow> Time \<Rightarrow> Duration" where
  "Sub t u =
     (let d = t - u
      in if d > maxDuration then maxDuration else if d < minDuration then minDuration else d)"

definition Seconds :: "Duration \<Rightarrow> real" where
  "Seconds d = of_int (d sdiv Second) + of_int (d smod Second) / 1000000000"

subsection \<open>Events, objects and the handler\<close>

text \<open>The queue item of the controller: the struct \<open>Event\<close> of package controller.\<close>

record Event =
  key :: string
  eventType :: string
  namespace :: string
  resourceType :: string

text \<open>
  The envelope handed to the handler (\<open>event.Event\<close>), with the three fields that
  \<open>processItem\<close> sets, and the part of an object's metadata that the controller reads.
\<close>

record event_Event =
  Kind :: string
  Name :: string
  event_Namespace :: string

record ObjectMeta =
  CreationTimestamp :: Time
  ObjectMeta_Namespace :: string

text \<open>
  The calls the controller makes on \<open>handlers.Handler\<close>. An object is an
  \<open>interface{}\<close> value, \<open>None\<close> when it is nil.
\<close>

datatype 'obj handler_call =
    ObjectCreated "'obj option"
  | ObjectUpdated "'obj option" event_Event
  | ObjectDeleted event_Event

text \<open>
  What the controller is linked against and does not define: the informer's store
  (\<open>GetByKey\<close> returns the object, whether it exists, and an error), the metadata
  accessor of package utils, the two key functions of the cache package (a key and an
  error), and the handler, given by the failure it reports for a call (\<open>None\<close> when it
  succeeds).
\<close>

record 'obj env =
  GetByKey :: "string \<Rightarrow> 'obj option \<times> bool \<times> string option"
  GetObjectMetaData :: "'obj option \<Rightarrow> ObjectMeta"
  MetaNamespaceKeyFunc :: "'obj \<Rightarrow> string \<times> string option"
  DeletionHandlingMetaNamespaceKeyFunc :: "'obj \<Rightarrow> string \<times> string option"
  eventHandler :: "'obj handler_call \<Rightarrow> string option"

text \<open>
  \<open>strings.Split\<close> for a separator of one character: the pieces of the string between
  the occurrences of the separator. The result is never empty.
\<close>

fun Split :: "string \<Rightarrow> char \<Rightarrow> string list" where
  "Split [] sep = [[]]"
| "Split (x # xs) sep =
     (if x = sep then [] # Split xs sep
      else (x # hd (Split xs sep)) # tl (Split xs sep))"

subsection \<open>The change queue\<close>

text \<open>
  Modelled from the spec: the rate-limited work queue that the controller creates with
  \<open>workqueue.NewRateLimitingQueue\<close> is not among the sources; the definitions of this
  subsection follow the contract of the Change Queue in section 4.2 of the specification.
  The queue holds the notices waiting for \<open>get\<close> in arrival order, the keys in flight,
  the notices added for a key while it was in flight, the retry count of every key, and
  the shutdown flag. The delay of a rate-limited requeue is not modelled: the notice is
  added at once.
\<close>

record queue =
  pending :: "Event list"
  inflight :: "string list"
  held :: "Event list"
  requeues :: "string \<Rightarrow> nat"
  shuttingDown :: bool

text \<open>Modelled from the spec: the queue of a new controller holds nothing.\<close>

definition emptyQueue :: queue where
  "emptyQueue = \<lparr>pending = [], inflight = [], held = [], requeues = (\<lambda>k. 0),
                  shuttingDown = False\<rparr>"

text \<open>
  Modelled from the spec: insert or coalesce. A notice whose key is already present
  replaces the present one; otherwise it is put at the end.
\<close>

definition coalesce :: "Event \<Rightarrow> Event list \<Rightarrow> Event list" where
  "coalesce n xs =
     (if key n \<in> set (map key xs) then map (\<lambda>m. if key m = key n then n else m) xs
      else xs @ [n])"

text \<open>
  Modelled from the spec: \<open>add(notice)\<close> inserts or coalesces; an add for a key in flight
  is held until \<open>done(key)\<close>.
\<close>

definition Add :: "Event \<Rightarrow> queue \<Rightarrow> queue" where
  "Add n q =
     (if key n \<in> set (inflight q) then q\<lparr>held := coalesce n (held q)\<rparr>
      else q\<lparr>pending := coalesce n (pending q)\<rparr>)"

text \<open>
  Modelled from the spec: \<open>get()\<close> waits until an item is available or shutdown is
  signalled, and marks the key of the item it returns as in flight. After shutdown no
  further item is handed out.
\<close>

datatype get_result = WouldBlock | Quit | Got Event queue

definition Get :: "queue \<Rightarrow> get_result" where
  "Get q =
     (if shuttingDown q then Quit
      else case pending q of
             [] \<Rightarrow> WouldBlock
           | n # ns \<Rightarrow> Got n (q\<lparr>pending := ns, inflight := key n # inflight q\<rparr>))"

text \<open>
  Modelled from the spec: \<open>done(key)\<close> releases the in-flight mark; an add that was held
  for the key becomes eligible for \<open>get\<close>.
\<close>

definition Done :: "string \<Rightarrow> queue \<Rightarrow> queue" where
  "Done k q =
     q\<lparr>inflight := removeAll k (inflight q),
       pending := pending q @ filter (\<lambda>m. key m = k) (held q),
       held := filter (\<lambda>m. key m \<noteq> k) (held q)\<rparr>"

text \<open>
  Modelled from the spec: \<open>forget(key)\<close> clears the retry count, \<open>numRequeues(key)\<close>
  reads it, \<open>addRateLimited\<close> counts one more retry and adds the notice again.
\<close>

definition Forget :: "string \<Rightarrow> queue \<Rightarrow> queue" where
  "Forget k q = q\<lparr>requeues := (requeues q)(k := 0)\<rparr>"

definition NumRequeues :: "string \<Rightarrow> queue \<Rightarrow> nat" where
  "NumRequeues k q = requeues q k"

definition AddRateLimited :: "Event \<Rightarrow> queue \<Rightarrow> queue" where
  "AddRateLimited n q = Add n (q\<lparr>requeues := (requeues q)(key n := requeues q (key n) + 1)\<rparr>)"

text \<open>Modelled from the spec: shutdown closes the queue.\<close>

definition ShutDown :: "queue \<Rightarrow> queue" where
  "ShutDown q = q\<lparr>shuttingDown := True\<rparr>"

subsection \<open>The controller and its informer callbacks\<close>

text \<open>
  The state of one controller: its queue; the variables \<open>newEvent\<close> and \<open>err\<close> that
  \<open>newResourceController\<close> declares once and its three callbacks share (the fields
  \<open>shared_newEvent\<close> and \<open>shared_err\<close>); and what the
  controller has done so far: the calls made on the handler, the lines written by
  \<open>logger.Errorf\<close>, and the errors passed to \<open>utilruntime.HandleError\<close>. Lines logged
  at level Info are not recorded.
\<close>

record 'obj Controller =
  queue :: queue
  shared_newEvent :: Event
  shared_err :: "string option"
  handler_calls :: "'obj handler_call list"
  logger :: "string list"
  handled_errors :: "string list"

definition maxRetries :: nat where
  "maxRetries = 5"

definition newResourceController :: "'obj Controller" where
  "newResourceController =
     \<lparr>queue = emptyQueue,
      shared_newEvent = \<lparr>key = '''', eventType = '''', namespace = '''', resourceType = ''''\<rparr>,
      shared_err = None, handler_calls = [], logger = [], handled_errors = []\<rparr>"

text \<open>
  The callbacks registered with the informer. Each writes its fields of the shared
  \<open>newEvent\<close> and adds a copy to the queue when the key function gave no error. Only
  \<open>DeleteFunc\<close> writes the namespace.
\<close>

definition AddFunc :: "'obj env \<Rightarrow> string \<Rightarrow> 'obj \<Rightarrow> 'obj Controller \<Rightarrow> 'obj Controller" where
  "AddFunc env rt obj c =
     (let (k, e) = MetaNamespaceKeyFunc env obj;
          ne = (shared_newEvent c)\<lparr>key := k, eventType := ''create'', resourceType := rt\<rparr>;
          c1 = c\<lparr>shared_newEvent := ne, shared_err := e\<rparr>
      in if e = None then c1\<lparr>queue := Add ne (queue c1)\<rparr> else c1)"

definition UpdateFunc :: "'obj env \<Rightarrow> string \<Rightarrow> 'obj \<Rightarrow> 'obj \<Rightarrow> 'obj Controller \<Rightarrow> 'obj Controller" where
  "UpdateFunc env rt old new c =
     (let (k, e) = MetaNamespaceKeyFunc env old;
          ne = (shared_newEvent c)\<lparr>key := k, eventType := ''update'', resourceType := rt\<rparr>;
          c1 = c\<lparr>shared_newEvent := ne, shared_err := e\<rparr>
      in if e = None then c1\<lparr>queue := Add ne (queue c1)\<rparr> else c1)"

definition DeleteFunc :: "'obj env \<Rightarrow> string \<Rightarrow> 'obj \<Rightarrow> 'obj Controller \<Rightarrow> 'obj Controller" where
  "DeleteFunc env rt obj c =
     (let (k, e) = DeletionHandlingMetaNamespaceKeyFunc env obj;
          ne = (shared_newEvent c)\<lparr>key := k, eventType := ''delete'', resourceType := rt,
                 namespace := ObjectMeta_Namespace (GetObjectMetaData env (Some obj))\<rparr>;
          c1 = c\<lparr>shared_newEvent := ne, shared_err := e\<rparr>
      in if e = None then c1\<lparr>queue := Add ne (queue c1)\<rparr> else c1)"

subsection \<open>Processing one item\<close>

text \<open>
  A call on the handler: the call is made, and what the handler reports comes back with
  the new state. \<open>processItem\<close> writes every such call as a statement, so it keeps the
  state and drops the report.
\<close>

definition invoke :: "'obj env \<Rightarrow> 'obj handler_call \<Rightarrow> 'obj Controller \<Rightarrow> string option \<times> 'obj Controller" where
  "invoke env hc c = (eventHandler env hc, c\<lparr>handler_calls := handler_calls c @ [hc]\<rparr>)"

definition processItem :: "'obj env \<Rightarrow> pkg_vars \<Rightarrow> Event \<Rightarrow> 'obj Controller \<Rightarrow> string option \<times> 'obj Controller" where
  "processItem env p newEvent0 c =
     (case GetByKey env (key newEvent0) of
        (obj, _, Some e) \<Rightarrow>
          (Some (''Error fetching object with key '' @ key newEvent0 @ '' from store: '' @ e), c)
      | (obj, _, None) \<Rightarrow>
          (let objectMeta = GetObjectMetaData env obj;
               newEvent = (if namespace newEvent0 = ''''
                           then newEvent0\<lparr>namespace := Split (key newEvent0) CHR ''/'' ! 0\<rparr>
                           else newEvent0)
           in if eventType newEvent = ''create'' then
                (if Seconds (Sub (CreationTimestamp objectMeta) (serverStartTime p)) > 0 then
                   (if global p (resourceType newEvent) \<noteq> None
                    then (None, snd (invoke env (ObjectCreated obj) c))
                    else if create p (resourceType newEvent) \<noteq> None
                    then (None, snd (invoke env (ObjectCreated obj) c))
                    else (None, c))
                 else (None, c))
              else if eventType newEvent = ''update'' then
                (let kbEvent = \<lparr>Kind = resourceType newEvent, Name = key newEvent,
                                event_Namespace = namespace newEvent\<rparr>
                 in if global p (resourceType newEvent) \<noteq> None
                    then (None, snd (invoke env (ObjectUpdated obj kbEvent) c))
                    else if update p (resourceType newEvent) \<noteq> None
                    then (None, snd (invoke env (ObjectUpdated obj kbEvent) c))
                    else (None, c))
              else if eventType newEvent = ''delete'' then
                (let kbEvent = \<lparr>Kind = resourceType newEvent, Name = key newEvent,
                                event_Namespace = namespace newEvent\<rparr>
                 in if global p (resourceType newEvent) \<noteq> None
                    then (None, snd (invoke env (ObjectDeleted kbEvent) c))
                    else if delete p (resourceType newEvent) \<noteq> None
                    then (None, snd (invoke env (ObjectDeleted kbEvent) c))
                    else (None, c))
              else (None, c)))"

subsection \<open>The drain loop\<close>

text \<open>
  \<open>processNextItem\<close> takes the next item, processes it, and decides on the retry; the
  deferred \<open>Done\<close> runs last. The result is \<open>None\<close> when \<open>Get\<close> finds the queue empty and
  open: the worker then waits in \<open>Get\<close> and the call does not return until a notice is
  added. Otherwise it is the boolean the source returns, with the new state. The source
  hands the notice itself to \<open>Forget\<close>, \<open>NumRequeues\<close> and \<open>Done\<close>; the queue of the
  specification takes its key.
\<close>

definition processNextItem :: "'obj env \<Rightarrow> pkg_vars \<Rightarrow> 'obj Controller \<Rightarrow> (bool \<times> 'obj Controller) option" where
  "processNextItem env p c =
     (case Get (queue c) of
        WouldBlock \<Rightarrow> None
      | Quit \<Rightarrow> Some (False, c)
      | Got newEvent q \<Rightarrow>
          (let (err, c1) = processItem env p newEvent (c\<lparr>queue := q\<rparr>);
               c2 = (case err of
                       None \<Rightarrow> c1\<lparr>queue := Forget (key newEvent) (queue c1)\<rparr>
                     | Some e \<Rightarrow>
                         if NumRequeues (key newEvent) (queue c1) < maxRetries then
                           c1\<lparr>logger := logger c1 @
                                 [''Error processing '' @ key newEvent @ '' (will retry): '' @ e],
                              queue := AddRateLimited newEvent (queue c1)\<rparr>
                         else
                           c1\<lparr>logger := logger c1 @
                                 [''Error processing '' @ key newEvent @ '' (giving up): '' @ e],
                              queue := Forget (key newEvent) (queue c1),
                              handled_errors := handled_errors c1 @ [e]\<rparr>)
           in Some (True, c2\<lparr>queue := Done (key newEvent) (queue c2)\<rparr>)))"

subsection \<open>Termination of the drain loop\<close>

text \<open>
  Every round of the loop that continues either takes a notice out of the queue for good
  or puts it back with one retry fewer left. So the number of notices in the queue, and
  then the retries left to the waiting notices, go down.
\<close>

definition queue_size :: "queue \<Rightarrow> nat" where
  "queue_size q = length (pending q) + length (held q)"

definition retry_budget :: "queue \<Rightarrow> nat" where
  "retry_budget q = sum_list (map (\<lambda>m. maxRetries - requeues q (key m)) (pending q))"

text \<open>The queue right after \<open>Get\<close> has handed out the first waiting notice.\<close>

definition taken :: "queue \<Rightarrow> Event \<Rightarrow> Event list \<Rightarrow> queue" where
  "taken q n ns = q\<lparr>pending := ns, inflight := key n # inflight q\<rparr>"

lemma queue_invoke: "queue (snd (invoke env hc c)) = queue c"
  by (simp add: invoke_def)

lemma queue_processItem: "queue (snd (processItem env p n c)) = queue c"
proof (cases "GetByKey env (key n)")
  case (fields obj ex e)
  show ?thesis
  proof (cases e)
    case None
    with fields show ?thesis
      by (simp add: processItem_def Let_def queue_invoke)
  next
    case (Some a)
    with fields show ?thesis
      by (simp add: processItem_def)
  qed
qed

lemma Get_Got:
  "Get q = Got n q' \<Longrightarrow>
   \<exists>ns. pending q = n # ns \<and> \<not> shuttingDown q \<and> q' = taken q n ns"
  by (auto simp: Get_def taken_def split: if_splits list.splits)

lemma processNextItem_queue:
  assumes "processNextItem env p c = Some (True, c')"
  shows "\<exists>n ns. pending (queue c) = n # ns \<and> \<not> shuttingDown (queue c)
          \<and> (queue c' = Done (key n) (Forget (key n) (taken (queue c) n ns))
             \<or> (requeues (queue c) (key n) < maxRetries
                \<and> queue c' = Done (key n) (AddRateLimited n (taken (queue c) n ns))))"
proof (cases "Get (queue c)")
  case WouldBlock
  with assms show ?thesis by (simp add: processNextItem_def)
next
  case Quit
  with assms show ?thesis by (simp add: processNextItem_def)
next
  case (Got n q)
  then obtain ns where ns: "pending (queue c) = n # ns" "\<not> shuttingDown (queue c)"
      "q = taken (queue c) n ns"
    using Get_Got [OF Got] by auto
  obtain e c1 where pi: "processItem env p n (c\<lparr>queue := q\<rparr>) = (e, c1)"
    by (cases "processItem env p n (c\<lparr>queue := q\<rparr>)")
  have q1: "queue c1 = q"
    using queue_processItem [of env p n "c\<lparr>queue := q\<rparr>"] pi by simp
  have "queue c' = Done (key n) (Forget (key n) q)
       \<or> (requeues q (key n) < maxRetries \<and> queue c' = Done (key n) (AddRateLimited n q))"
    using assms Got pi q1
    by (auto simp: processNextItem_def NumRequeues_def split: option.splits if_splits)
  moreover have "requeues q (key n) = requeues (queue c) (key n)"
    by (simp add: ns taken_def)
  ultimately show ?thesis using ns by auto
qed

lemma length_coalesce:
  "length (coalesce n xs) = (if key n \<in> set (map key xs) then length xs else Suc (length xs))"
  by (simp add: coalesce_def)

lemma length_filter_split:
  "length (filter (\<lambda>m. key m = k) xs) + length (filter (\<lambda>m. key m \<noteq> k) xs) = length xs"
  by (induction xs) auto

lemma queue_size_Done: "queue_size (Done k q) = queue_size q"
  using length_filter_split [of k "held q"]
  by (simp add: queue_size_def Done_def)

lemma queue_size_Forget: "queue_size (Forget k q) = queue_size q"
  by (simp add: queue_size_def Forget_def)

lemma queue_size_taken:
  "pending q = n # ns \<Longrightarrow> Suc (queue_size (taken q n ns)) = queue_size q"
  by (simp add: queue_size_def taken_def)

lemma AddRateLimited_taken:
  "AddRateLimited n (taken q n ns) =
     q\<lparr>pending := ns, inflight := key n # inflight q,
       requeues := (requeues q)(key n := requeues q (key n) + 1),
       held := coalesce n (held q)\<rparr>"
  by (simp add: AddRateLimited_def Add_def taken_def)

lemma filter_key_absent: "k \<notin> set (map key xs) \<Longrightarrow> filter (\<lambda>m. key m = k) xs = []"
  by (induction xs) auto

lemma budget_mono:
  "sum_list (map (\<lambda>m. maxRetries - (r(k := r k + 1)) (key m)) ns)
     \<le> sum_list (map (\<lambda>m. maxRetries - r (key m)) ns)"
  by (induction ns) auto

lemma retry_decreases:
  assumes "pending q = n # ns" and "requeues q (key n) < maxRetries"
  shows "queue_size (Done (key n) (AddRateLimited n (taken q n ns))) < queue_size q
       \<or> (queue_size (Done (key n) (AddRateLimited n (taken q n ns))) = queue_size q
          \<and> retry_budget (Done (key n) (AddRateLimited n (taken q n ns))) < retry_budget q)"
proof (cases "key n \<in> set (map key (held q))")
  case True
  have "queue_size (Done (key n) (AddRateLimited n (taken q n ns)))
      = queue_size (AddRateLimited n (taken q n ns))"
    by (rule queue_size_Done)
  also have "\<dots> = length ns + length (held q)"
    using True by (simp add: AddRateLimited_taken queue_size_def length_coalesce)
  also have "\<dots> < queue_size q"
    using assms(1) by (simp add: queue_size_def)
  finally show ?thesis by simp
next
  case False
  then have h: "coalesce n (held q) = held q @ [n]"
    by (simp add: coalesce_def)
  have "queue_size (Done (key n) (AddRateLimited n (taken q n ns)))
      = queue_size (AddRateLimited n (taken q n ns))"
    by (rule queue_size_Done)
  also have "\<dots> = queue_size q"
    using assms(1) by (simp add: AddRateLimited_taken queue_size_def h)
  finally have sz: "queue_size (Done (key n) (AddRateLimited n (taken q n ns))) = queue_size q" .
  have pend: "pending (Done (key n) (AddRateLimited n (taken q n ns))) = ns @ [n]"
    using False by (simp add: Done_def AddRateLimited_taken h filter_key_absent)
  have req: "requeues (Done (key n) (AddRateLimited n (taken q n ns)))
      = (requeues q)(key n := requeues q (key n) + 1)"
    by (simp add: Done_def AddRateLimited_taken)
  have "retry_budget (Done (key n) (AddRateLimited n (taken q n ns)))
      = sum_list (map (\<lambda>m. maxRetries - ((requeues q)(key n := requeues q (key n) + 1)) (key m)) ns)
        + (maxRetries - (requeues q (key n) + 1))"
    by (simp add: retry_budget_def pend req)
  also have "\<dots> \<le> sum_list (map (\<lambda>m. maxRetries - requeues q (key m)) ns)
        + (maxRetries - (requeues q (key n) + 1))"
    using budget_mono [of "requeues q" "key n" ns] by simp
  also have "\<dots> < sum_list (map (\<lambda>m. maxRetries - requeues q (key m)) ns)
        + (maxRetries - requeues q (key n))"
    using assms(2) by simp
  also have "\<dots> = retry_budget q"
    using assms(1) by (simp add: retry_budget_def)
  finally show ?thesis using sz by simp
qed

lemma processNextItem_decreases:
  assumes "processNextItem env p c = Some (True, c')"
  shows "queue_size (queue c') < queue_size (queue c)
       \<or> (queue_size (queue c') = queue_size (queue c)
          \<and> retry_budget (queue c') < retry_budget (queue c))"
proof -
  from processNextItem_queue [OF assms] obtain n ns where
    ns: "pending (queue c) = n # ns" and
    alt: "queue c' = Done (key n) (Forget (key n) (taken (queue c) n ns))
             \<or> (requeues (queue c) (key n) < maxRetries
                \<and> queue c' = Done (key n) (AddRateLimited n (taken (queue c) n ns)))"
    by blast
  from alt show ?thesis
  proof
    assume "queue c' = Done (key n) (Forget (key n) (taken (queue c) n ns))"
    then show ?thesis
      using queue_size_taken [OF ns] by (simp add: queue_size_Done queue_size_Forget)
  next
    assume "requeues (queue c) (key n) < maxRetries
                \<and> queue c' = Done (key n) (AddRateLimited n (taken (queue c) n ns))"
    then show ?thesis using retry_decreases [OF ns] by simp
  qed
qed

text \<open>
  What a call that may wait for ever gives: \<open>Parked\<close> with the state in which the
  goroutine waits in \<open>Get\<close> (it goes on only when a notice is added), or \<open>Returned\<close>.
\<close>

datatype 'a outcome = Parked 'a | Returned 'a

fun state_of :: "'a outcome \<Rightarrow> 'a" where
  "state_of (Parked s) = s"
| "state_of (Returned s) = s"

text \<open>\<open>runWorker\<close>: \<^verbatim>\<open>for c.processNextItem() { }\<close>.\<close>

function runWorker :: "'obj env \<Rightarrow> pkg_vars \<Rightarrow> 'obj Controller \<Rightarrow> 'obj Controller outcome" where
  "runWorker env p c =
     (case processNextItem env p c of
        None \<Rightarrow> Parked c
      | Some (continue, c') \<Rightarrow> if continue then runWorker env p c' else Returned c')"
  by pat_completeness auto
termination
proof (relation "measures [\<lambda>(env, p, c). queue_size (queue c), \<lambda>(env, p, c). retry_budget (queue c)]")
  show "wf (measures [\<lambda>(env :: 'obj env, p :: pkg_vars, c :: 'obj Controller). queue_size (queue c),
                      \<lambda>(env, p, c). retry_budget (queue c)])"
    by simp
next
  fix env :: "'obj env" and p c x2 x y
  assume "processNextItem env p c = Some x2" "(x, y) = x2" "x"
  then have "processNextItem env p c = Some (True, y)" by auto
  from processNextItem_decreases [OF this]
  show "((env, p, y), env, p, c)
      \<in> measures [\<lambda>(env, p, c). queue_size (queue c), \<lambda>(env, p, c). retry_budget (queue c)]"
    by auto
qed

declare runWorker.simps [simp del]

subsection \<open>Starting a controller\<close>

text \<open>
  Modelled from the spec: \<open>wait.Until\<close> is not among the sources. It calls the function
  again and again, one period apart, until the stop channel is closed; the stop channel
  is given here by the number of periods for which it is still open. A call that waits
  for ever keeps \<open>wait.Until\<close> waiting.
\<close>

fun wait_Until :: "('s \<Rightarrow> 's outcome) \<Rightarrow> nat \<Rightarrow> 's \<Rightarrow> 's outcome" where
  "wait_Until f 0 c = Returned c"
| "wait_Until f (Suc stopCh) c =
     (case f c of Parked c' \<Rightarrow> Parked c' | Returned c' \<Rightarrow> wait_Until f stopCh c')"

text \<open>
  \<open>Run\<close>. The arguments \<open>now\<close> and \<open>synced\<close> are what \<open>time.Now().Local()\<close> and
  \<open>cache.WaitForCacheSync\<close> return. The start time is written to the package variable.
  The deferred \<open>queue.ShutDown\<close> runs when \<open>Run\<close> returns.
\<close>

definition Run :: "'obj env \<Rightarrow> Time \<Rightarrow> bool \<Rightarrow> nat \<Rightarrow> pkg_vars \<times> 'obj Controller \<Rightarrow> (pkg_vars \<times> 'obj Controller) outcome" where
  "Run env now synced stopCh pc =
     (let p = (fst pc)\<lparr>serverStartTime := now\<rparr>;
          c = snd pc
      in if \<not> synced then
           Returned (p, c\<lparr>handled_errors := handled_errors c @ [''Timed out waiting for caches to sync''],
                          queue := ShutDown (queue c)\<rparr>)
         else
           (case wait_Until (runWorker env p) stopCh c of
              Parked c' \<Rightarrow> Parked (p, c')
            | Returned c' \<Rightarrow> Returned (p, c'\<lparr>queue := ShutDown (queue c')\<rparr>)))"

subsection \<open>The queues that can arise\<close>

text \<open>The queues reached from the empty queue by the operations of the queue.\<close>

inductive reachable :: "queue \<Rightarrow> bool" where
  reachable_empty: "reachable emptyQueue"
| reachable_Add: "reachable q \<Longrightarrow> reachable (Add n q)"
| reachable_Get: "reachable q \<Longrightarrow> Get q = Got n q' \<Longrightarrow> reachable q'"
| reachable_Done: "reachable q \<Longrightarrow> reachable (Done k q)"
| reachable_Forget: "reachable q \<Longrightarrow> reachable (Forget k q)"
| reachable_AddRateLimited: "reachable q \<Longrightarrow> reachable (AddRateLimited n q)"
| reachable_ShutDown: "reachable q \<Longrightarrow> reachable (ShutDown q)"

text \<open>
  What holds of every queue that can arise: no two waiting notices and no two held
  notices have the same key, no waiting notice has a key in flight, and every held
  notice has one.
\<close>

definition queue_inv :: "queue \<Rightarrow> bool" where
  "queue_inv q =
     (distinct (map key (pending q)) \<and> distinct (map key (held q))
      \<and> set (map key (pending q)) \<inter> set (inflight q) = {}
      \<and> set (map key (held q)) \<subseteq> set (inflight q))"

subsection \<open>An example environment\<close>

text \<open>
  The closed examples below run the controller in this environment: an object is the
  string of its key, every key is found in the store without error, every object was
  created at time 15 and lies in the namespace its key starts with, the key functions
  give the object's key, and the handler never fails. The package variables have the
  start time 10 and list "pod" in the global filter map only.
\<close>

definition demo_env :: "string env" where
  "demo_env =
     \<lparr>GetByKey = (\<lambda>k. (Some k, True, None)),
      GetObjectMetaData = (\<lambda>obj. \<lparr>CreationTimestamp = 15,
          ObjectMeta_Namespace =
            (case obj of None \<Rightarrow> '''' | Some k \<Rightarrow> takeWhile (\<lambda>x. x \<noteq> CHR ''/'') k)\<rparr>),
      MetaNamespaceKeyFunc = (\<lambda>obj. (obj, None)),
      DeletionHandlingMetaNamespaceKeyFunc = (\<lambda>obj. (obj, None)),
      eventHandler = (\<lambda>hc. None)\<rparr>"

definition demo_pkg :: pkg_vars where
  "demo_pkg =
     \<lparr>serverStartTime = 10, global = [''pod'' \<mapsto> 0], create = Map.empty,
      delete = Map.empty, update = Map.empty\<rparr>"

definition demo_notice :: "string \<Rightarrow> Event" where
  "demo_notice kind =
     \<lparr>key = ''default/web'', eventType = kind, namespace = '''', resourceType = ''pod''\<rparr>"

section \<open>Properties of the configuration\<close>

lemma Global_appendGlobal:
  "Global (Event (appendGlobal flag name c)) = Global (Event c) @ (if flag then [name] else [])"
  by (simp add: appendGlobal_def)

lemma Resource_appendGlobal: "Resource (appendGlobal flag name c) = Resource c"
  by (simp add: appendGlobal_def)

lemma dom_foldl_upd:
  "dom (foldl (\<lambda>m' r. m'(r \<mapsto> v)) m l) = dom m \<union> set l"
  by (induction l arbitrary: m) auto

lemma loadList_nonempty: "l \<noteq> [] \<Longrightarrow> dom (loadList l m) = set l"
  by (simp add: loadList_def dom_foldl_upd)

lemma Global_UnmarshallConfig:
  "Resource c \<noteq> Resource_zero \<Longrightarrow>
   Global (Event (UnmarshallConfig c)) =
     Global (Event c)
     @ (if DaemonSet (Resource c) then [''demonset''] else [])
     @ (if ReplicaSet (Resource c) then [''replicaset''] else [])
     @ (if Namespace (Resource c) then [''namespace''] else [])
     @ (if Deployment (Resource c) then [''deployment''] else [])
     @ (if Pod (Resource c) then [''pod''] else [])
     @ (if ReplicationController (Resource c) then [''replicationcontroller''] else [])
     @ (if Service (Resource c) then [''service''] else [])
     @ (if Job (Resource c) then [''job''] else [])
     @ (if PersistentVolume (Resource c) then [''persistentvolume''] else [])
     @ (if Secret (Resource c) then [''secret''] else [])
     @ (if ConfigMap (Resource c) then [''configmap''] else [])
     @ (if Ingress (Resource c) then [''ingress''] else [])"
  by (simp add: UnmarshallConfig_def Global_appendGlobal Resource_appendGlobal)

text \<open>
  C10. For every configuration with a non-empty resource block and the daemon set flag
  set, \<open>UnmarshallConfig\<close> appends the string "demonset" to the global event list right
  after the entries the list already had; \<open>Start\<close> creates the daemon set controllers
  under the resource type "daemonset"; and after \<open>loadEventConfig\<close> the lookup
  \<open>global["daemonset"]\<close> succeeds only if the configuration itself already listed
  "daemonset": the entry that \<open>UnmarshallConfig\<close> added never matches.
\<close>

theorem C10_demonset_never_matches_daemonset:
  assumes "Resource c \<noteq> Resource_zero" and "DaemonSet (Resource c)"
  shows "(\<exists>rest. Global (Event (UnmarshallConfig c)) = Global (Event c) @ ''demonset'' # rest
            \<and> ''daemonset'' \<notin> set (''demonset'' # rest))
       \<and> (\<exists>ns. (''daemonset'', Some ns) \<in> set (Start c))
       \<and> (\<forall>e \<in> set (Start c). fst e \<noteq> ''demonset'')
       \<and> ((global (loadEventConfig (UnmarshallConfig c) p) ''daemonset'' \<noteq> None)
            = (''daemonset'' \<in> set (Global (Event c))))"
proof -
  let ?G = "Global (Event (UnmarshallConfig c))"
  have G: "?G = Global (Event c) @ ''demonset'' #
      ((if ReplicaSet (Resource c) then [''replicaset''] else [])
     @ (if Namespace (Resource c) then [''namespace''] else [])
     @ (if Deployment (Resource c) then [''deployment''] else [])
     @ (if Pod (Resource c) then [''pod''] else [])
     @ (if ReplicationController (Resource c) then [''replicationcontroller''] else [])
     @ (if Service (Resource c) then [''service''] else [])
     @ (if Job (Resource c) then [''job''] else [])
     @ (if PersistentVolume (Resource c) then [''persistentvolume''] else [])
     @ (if Secret (Resource c) then [''secret''] else [])
     @ (if ConfigMap (Resource c) then [''configmap''] else [])
     @ (if Ingress (Resource c) then [''ingress''] else []))"
    (is "_ = _ @ _ # ?rest")
    using assms by (simp add: Global_UnmarshallConfig)
  have rest: "''daemonset'' \<notin> set (''demonset'' # ?rest)"
    by simp
  have appended: "\<exists>rest. ?G = Global (Event c) @ ''demonset'' # rest
           \<and> ''daemonset'' \<notin> set (''demonset'' # rest)"
    using G rest by blast
  have started: "\<exists>ns. (''daemonset'', Some ns) \<in> set (Start c)"
  proof (cases "Config_Namespace c")
    case Nil
    then have "(''daemonset'', Some []) \<in> set (Start c)"
      using assms(2) by (simp add: Start_def Let_def perNamespace_def)
    then show ?thesis ..
  next
    case (Cons ns nss)
    then have "(''daemonset'', Some ns) \<in> set (Start c)"
      using assms(2) by (simp add: Start_def Let_def perNamespace_def)
    then show ?thesis ..
  qed
  have names: "\<forall>e \<in> set (Start c). fst e \<noteq> ''demonset''"
    by (auto simp: Start_def Let_def perNamespace_def clusterWide_def)
  have "?G \<noteq> []" using G by simp
  then have "dom (global (loadEventConfig (UnmarshallConfig c) p)) = set ?G"
    by (simp add: loadEventConfig_def loadList_nonempty)
  also have "\<dots> = set (Global (Event c)) \<union> set (''demonset'' # ?rest)"
    by (subst G) simp
  finally have "(''daemonset'' \<in> dom (global (loadEventConfig (UnmarshallConfig c) p)))
      = (''daemonset'' \<in> set (Global (Event c)))"
    using rest by blast
  then have lookup: "(global (loadEventConfig (UnmarshallConfig c) p) ''daemonset'' \<noteq> None)
           = (''daemonset'' \<in> set (Global (Event c)))"
    by (simp add: dom_def)
  from appended started names lookup show ?thesis by blast
qed

text \<open>
  The theorem at a configuration that enables only daemon sets, with an empty event
  block: the hypotheses hold, and the global map built from it has no entry for
  "daemonset".
\<close>

theorem C10_demonset_witness:
  "Resource \<lparr>Resource = Resource_zero\<lparr>DaemonSet := True\<rparr>, Config_Namespace = [],
             Event = \<lparr>Global = [], Create = [], Update = [], Delete = []\<rparr>\<rparr> \<noteq> Resource_zero
   \<and> DaemonSet (Resource \<lparr>Resource = Resource_zero\<lparr>DaemonSet := True\<rparr>, Config_Namespace = [],
             Event = \<lparr>Global = [], Create = [], Update = [], Delete = []\<rparr>\<rparr>)
   \<and> global (loadEventConfig (UnmarshallConfig
         \<lparr>Resource = Resource_zero\<lparr>DaemonSet := True\<rparr>, Config_Namespace = [],
          Event = \<lparr>Global = [], Create = [], Update = [], Delete = []\<rparr>\<rparr>)
         \<lparr>serverStartTime = 0, global = Map.empty, create = Map.empty,
          delete = Map.empty, update = Map.empty\<rparr>) ''daemonset'' = None"
proof -
  let ?c = "\<lparr>Resource = Resource_zero\<lparr>DaemonSet := True\<rparr>, Config_Namespace = [],
             Event = \<lparr>Global = [], Create = [], Update = [], Delete = []\<rparr>\<rparr>"
  have h1: "Resource ?c \<noteq> Resource_zero"
    by (simp add: Resource_zero_def)
  have h2: "DaemonSet (Resource ?c)"
    by simp
  show ?thesis
    using h1 h2 C10_demonset_never_matches_daemonset [OF h1 h2] by simp
qed

section \<open>Properties of the controller\<close>

subsection \<open>The start-up check and the namespace fallback\<close>

lemma Seconds_pos: "(0 < Seconds d) = (0 < d)"
proof (cases "0 < d")
  case True
  then have q: "d sdiv Second = d div Second" and r: "d smod Second = d mod Second"
    by (simp_all add: signed_divide_int_def signed_modulo_int_def Second_def)
  have "0 \<le> d div Second" and "0 \<le> d mod Second"
    using True by (simp_all add: Second_def pos_imp_zdiv_nonneg_iff)
  moreover have "0 < d div Second \<or> 0 < d mod Second"
  proof (rule ccontr)
    assume "\<not> (0 < d div Second \<or> 0 < d mod Second)"
    with \<open>0 \<le> d div Second\<close> \<open>0 \<le> d mod Second\<close>
    have "d div Second = 0" "d mod Second = 0" by auto
    then have "d = 0" using div_mult_mod_eq [of d Second] by simp
    with True show False by simp
  qed
  ultimately have "0 < (of_int (d div Second) :: real) + of_int (d mod Second) / 1000000000"
    by (auto intro: add_nonneg_pos add_pos_nonneg)
  with True show ?thesis by (simp add: Seconds_def q r)
next
  case False
  then have "d sdiv Second \<le> 0" and "d smod Second \<le> 0"
    by (simp_all add: signed_divide_int_def signed_modulo_int_def Second_def sgn_if
        pos_imp_zdiv_nonneg_iff)
  then have "(of_int (d sdiv Second) :: real) + of_int (d smod Second) / 1000000000 \<le> 0"
    by (auto intro: add_nonpos_nonpos simp: divide_le_0_iff)
  with False show ?thesis by (simp add: Seconds_def)
qed

lemma Sub_pos: "(0 < Sub t u) = (u < t)"
  by (auto simp: Sub_def Let_def maxDuration_def minDuration_def)

lemma startup_check: "(0 < Seconds (Sub t u)) = (u < t)"
  by (simp add: Seconds_pos Sub_pos)

lemma Split_nonempty: "Split s sep \<noteq> []"
  by (induction s) auto

lemma hd_Split: "hd (Split s sep) = takeWhile (\<lambda>x. x \<noteq> sep) s"
  by (induction s) auto

lemma Split_0: "Split s sep ! 0 = takeWhile (\<lambda>x. x \<noteq> sep) s"
  using Split_nonempty [of s sep] hd_Split [of s sep] by (simp add: hd_conv_nth)

subsection \<open>What \<open>processItem\<close> does, case by case\<close>

lemma processItem_error:
  "GetByKey env (key n) = (obj, ex, Some e) \<Longrightarrow>
   processItem env p n c =
     (Some (''Error fetching object with key '' @ key n @ '' from store: '' @ e), c)"
  by (simp add: processItem_def)

lemma processItem_create:
  assumes "GetByKey env (key n) = (obj, ex, None)" and "eventType n = ''create''"
  shows "processItem env p n c =
     (None,
      if serverStartTime p < CreationTimestamp (GetObjectMetaData env obj)
         \<and> (global p (resourceType n) \<noteq> None \<or> create p (resourceType n) \<noteq> None)
      then c\<lparr>handler_calls := handler_calls c @ [ObjectCreated obj]\<rparr> else c)"
  using assms by (simp add: processItem_def Let_def invoke_def startup_check)

lemma processItem_update:
  assumes "GetByKey env (key n) = (obj, ex, None)" and "eventType n = ''update''"
  shows "processItem env p n c =
     (None,
      if global p (resourceType n) \<noteq> None \<or> update p (resourceType n) \<noteq> None
      then c\<lparr>handler_calls := handler_calls c @
             [ObjectUpdated obj
                \<lparr>Kind = resourceType n, Name = key n,
                 event_Namespace = (if namespace n = ''''
                                    then takeWhile (\<lambda>x. x \<noteq> CHR ''/'') (key n)
                                    else namespace n)\<rparr>]\<rparr>
      else c)"
  using assms by (simp add: processItem_def Let_def invoke_def Split_0)

lemma processItem_delete:
  assumes "GetByKey env (key n) = (obj, ex, None)" and "eventType n = ''delete''"
  shows "processItem env p n c =
     (None,
      if global p (resourceType n) \<noteq> None \<or> delete p (resourceType n) \<noteq> None
      then c\<lparr>handler_calls := handler_calls c @
             [ObjectDeleted
                \<lparr>Kind = resourceType n, Name = key n,
                 event_Namespace = (if namespace n = ''''
                                    then takeWhile (\<lambda>x. x \<noteq> CHR ''/'') (key n)
                                    else namespace n)\<rparr>]\<rparr>
      else c)"
  using assms by (simp add: processItem_def Let_def invoke_def Split_0)

lemma processItem_other:
  assumes "GetByKey env (key n) = (obj, ex, None)"
    and "eventType n \<noteq> ''create''" and "eventType n \<noteq> ''update''"
    and "eventType n \<noteq> ''delete''"
  shows "processItem env p n c = (None, c)"
  using assms by (simp add: processItem_def Let_def)

lemma processItem_no_error:
  assumes "GetByKey env (key n) = (obj, ex, None)"
  shows "fst (processItem env p n c) = None"
proof -
  consider "eventType n = ''create''" | "eventType n = ''update''" | "eventType n = ''delete''"
    | "eventType n \<noteq> ''create''" "eventType n \<noteq> ''update''" "eventType n \<noteq> ''delete''"
    by blast
  then show ?thesis
    using assms
    by cases (simp_all add: processItem_create processItem_update processItem_delete
        processItem_other)
qed

lemma processItem_handler_irrelevant:
  "processItem (env\<lparr>eventHandler := h\<rparr>) p n c = processItem env p n c"
proof (cases "GetByKey env (key n)")
  case (fields obj ex e)
  then have same: "GetByKey (env\<lparr>eventHandler := h\<rparr>) (key n) = (obj, ex, e)"
    by simp
  show ?thesis
  proof (cases e)
    case (Some a)
    with fields same show ?thesis by (simp add: processItem_error)
  next
    case None
    consider "eventType n = ''create''" | "eventType n = ''update''" | "eventType n = ''delete''"
      | "eventType n \<noteq> ''create''" "eventType n \<noteq> ''update''" "eventType n \<noteq> ''delete''"
      by blast
    then show ?thesis
      using fields same None
      by cases (simp_all add: processItem_create processItem_update processItem_delete
          processItem_other)
  qed
qed

subsection \<open>Facts about the example environment and the queue\<close>

lemma demo_notice_fields:
  "key (demo_notice kind) = ''default/web''" "eventType (demo_notice kind) = kind"
  "namespace (demo_notice kind) = ''''" "resourceType (demo_notice kind) = ''pod''"
  by (simp_all add: demo_notice_def)

lemma newResourceController_fields:
  "handler_calls newResourceController = []" "logger newResourceController = []"
  "handled_errors newResourceController = []" "queue newResourceController = emptyQueue"
  by (simp_all add: newResourceController_def)

lemma demo_pkg_fields:
  "serverStartTime demo_pkg = 10" "global demo_pkg ''pod'' = Some 0"
  by (simp_all add: demo_pkg_def)

lemma coalesce_member: "n \<in> set (coalesce n xs)"
  by (auto simp: coalesce_def image_iff)

subsection \<open>Start-up suppression and filter precedence\<close>

text \<open>
  C2. A create notice whose lookup returned an object without error: if the object's
  creation time is not after the controller start time, \<open>processItem\<close> calls no handler
  and changes nothing; if it is after the start time and the resource type is in the
  global or in the create filter map, the create handler is called once, with the object
  as the store returned it.
\<close>

theorem C2_startup_suppression:
  assumes "eventType n = ''create''" and "GetByKey env (key n) = (obj, ex, None)"
  shows "(CreationTimestamp (GetObjectMetaData env obj) \<le> serverStartTime p \<longrightarrow>
            processItem env p n c = (None, c))
       \<and> (serverStartTime p < CreationTimestamp (GetObjectMetaData env obj)
            \<and> (global p (resourceType n) \<noteq> None \<or> create p (resourceType n) \<noteq> None) \<longrightarrow>
            processItem env p n c =
              (None, c\<lparr>handler_calls := handler_calls c @ [ObjectCreated obj]\<rparr>))"
  using assms by (simp add: processItem_create)

text \<open>
  The theorem in the example environment: the object was created at 15; with the start
  time 10 the create handler is called, with the start time 15 or 20 it is not.
\<close>

theorem C2_startup_suppression_witness:
  "processItem demo_env demo_pkg (demo_notice ''create'') newResourceController
     = (None, newResourceController\<lparr>handler_calls := [ObjectCreated (Some ''default/web'')]\<rparr>)
   \<and> processItem demo_env (demo_pkg\<lparr>serverStartTime := 15\<rparr>) (demo_notice ''create'')
       newResourceController = (None, newResourceController)
   \<and> processItem demo_env (demo_pkg\<lparr>serverStartTime := 20\<rparr>) (demo_notice ''create'')
       newResourceController = (None, newResourceController)"
proof -
  have k: "eventType (demo_notice ''create'') = ''create''"
    by (simp add: demo_notice_def)
  have g: "GetByKey demo_env (key (demo_notice ''create'')) = (Some ''default/web'', True, None)"
    by (simp add: demo_env_def demo_notice_def)
  show ?thesis
    using C2_startup_suppression [OF k g, of demo_pkg newResourceController]
      C2_startup_suppression [OF k g, of "demo_pkg\<lparr>serverStartTime := 15\<rparr>" newResourceController]
      C2_startup_suppression [OF k g, of "demo_pkg\<lparr>serverStartTime := 20\<rparr>" newResourceController]
    by (simp add: demo_env_def demo_pkg_def demo_notice_def newResourceController_def)
qed

text \<open>
  C8. A notice whose resource type is in the global filter map and whose lookup returned
  without error: whatever the create, update and delete maps hold, \<open>processItem\<close> gives
  the same result; it calls the update handler for an update notice, the delete handler
  for a delete notice, and the create handler for a create notice of an object created
  after the controller start time.
\<close>

theorem C8_global_precedence:
  assumes "global p (resourceType n) \<noteq> None" and "GetByKey env (key n) = (obj, ex, None)"
  shows "processItem env (p\<lparr>create := cm, update := um, delete := dm\<rparr>) n c = processItem env p n c
       \<and> (eventType n = ''create''
            \<and> serverStartTime p < CreationTimestamp (GetObjectMetaData env obj) \<longrightarrow>
          processItem env p n c =
            (None, c\<lparr>handler_calls := handler_calls c @ [ObjectCreated obj]\<rparr>))
       \<and> (eventType n = ''update'' \<longrightarrow>
          processItem env p n c =
            (None, c\<lparr>handler_calls := handler_calls c @
               [ObjectUpdated obj
                  \<lparr>Kind = resourceType n, Name = key n,
                   event_Namespace = (if namespace n = ''''
                                      then takeWhile (\<lambda>x. x \<noteq> CHR ''/'') (key n)
                                      else namespace n)\<rparr>]\<rparr>))
       \<and> (eventType n = ''delete'' \<longrightarrow>
          processItem env p n c =
            (None, c\<lparr>handler_calls := handler_calls c @
               [ObjectDeleted
                  \<lparr>Kind = resourceType n, Name = key n,
                   event_Namespace = (if namespace n = ''''
                                      then takeWhile (\<lambda>x. x \<noteq> CHR ''/'') (key n)
                                      else namespace n)\<rparr>]\<rparr>))"
proof -
  have indep: "processItem env (p\<lparr>create := cm, update := um, delete := dm\<rparr>) n c
      = processItem env p n c"
  proof -
    consider "eventType n = ''create''" | "eventType n = ''update''" | "eventType n = ''delete''"
      | "eventType n \<noteq> ''create''" "eventType n \<noteq> ''update''" "eventType n \<noteq> ''delete''"
      by blast
    then show ?thesis
      using assms
      by cases (simp_all add: processItem_create processItem_update processItem_delete
          processItem_other)
  qed
  moreover have "eventType n = ''create''
      \<and> serverStartTime p < CreationTimestamp (GetObjectMetaData env obj) \<longrightarrow>
      processItem env p n c = (None, c\<lparr>handler_calls := handler_calls c @ [ObjectCreated obj]\<rparr>)"
    using assms by (simp add: processItem_create)
  moreover have "eventType n = ''update'' \<longrightarrow>
          processItem env p n c =
            (None, c\<lparr>handler_calls := handler_calls c @
               [ObjectUpdated obj
                  \<lparr>Kind = resourceType n, Name = key n,
                   event_Namespace = (if namespace n = ''''
                                      then takeWhile (\<lambda>x. x \<noteq> CHR ''/'') (key n)
                                      else namespace n)\<rparr>]\<rparr>)"
    using assms processItem_update [of env n obj ex p c] by simp
  moreover have "eventType n = ''delete'' \<longrightarrow>
          processItem env p n c =
            (None, c\<lparr>handler_calls := handler_calls c @
               [ObjectDeleted
                  \<lparr>Kind = resourceType n, Name = key n,
                   event_Namespace = (if namespace n = ''''
                                      then takeWhile (\<lambda>x. x \<noteq> CHR ''/'') (key n)
                                      else namespace n)\<rparr>]\<rparr>)"
    using assms processItem_delete [of env n obj ex p c] by simp
  ultimately show ?thesis by blast
qed

text \<open>
  The theorem in the example environment, where "pod" is in the global map and in no
  other: all three kinds of notice reach their handler.
\<close>

theorem C8_global_precedence_witness:
  "handler_calls (snd (processItem demo_env demo_pkg (demo_notice ''create'') newResourceController))
     = [ObjectCreated (Some ''default/web'')]
   \<and> handler_calls (snd (processItem demo_env demo_pkg (demo_notice ''update'') newResourceController))
     = [ObjectUpdated (Some ''default/web'')
          \<lparr>Kind = ''pod'', Name = ''default/web'', event_Namespace = ''default''\<rparr>]
   \<and> handler_calls (snd (processItem demo_env demo_pkg (demo_notice ''delete'') newResourceController))
     = [ObjectDeleted \<lparr>Kind = ''pod'', Name = ''default/web'', event_Namespace = ''default''\<rparr>]"
proof -
  have g: "global demo_pkg (resourceType (demo_notice kind)) \<noteq> None" for kind
    by (simp add: demo_pkg_def demo_notice_def)
  have l: "GetByKey demo_env (key (demo_notice kind)) = (Some ''default/web'', True, None)" for kind
    by (simp add: demo_env_def demo_notice_def)
  have t: "serverStartTime demo_pkg < CreationTimestamp (GetObjectMetaData demo_env (Some ''default/web''))"
    by (simp add: demo_env_def demo_pkg_def)
  have f: "eventType (demo_notice kind) = kind" "key (demo_notice kind) = ''default/web''"
      "namespace (demo_notice kind) = ''''" "resourceType (demo_notice kind) = ''pod''" for kind
    by (simp_all add: demo_notice_def)
  show ?thesis
    using C8_global_precedence [OF g [of "''create''"] l [of "''create''"], where c = newResourceController]
      C8_global_precedence [OF g [of "''update''"] l [of "''update''"], where c = newResourceController]
      C8_global_precedence [OF g [of "''delete''"] l [of "''delete''"], where c = newResourceController] t
    by (simp add: f newResourceController_def)
qed

subsection \<open>One round of the drain loop\<close>

lemma Get_pending:
  "pending q = n # ns \<Longrightarrow> \<not> shuttingDown q \<Longrightarrow> Get q = Got n (taken q n ns)"
  by (simp add: Get_def taken_def)

lemma processNextItem_retry:
  assumes "pending (queue c) = n # ns" and "\<not> shuttingDown (queue c)"
    and "GetByKey env (key n) = (obj, ex, Some e0)"
    and "requeues (queue c) (key n) < maxRetries"
  shows "processNextItem env p c =
     Some (True, c\<lparr>logger := logger c @
               [''Error processing '' @ key n @ '' (will retry): '' @
                ''Error fetching object with key '' @ key n @ '' from store: '' @ e0],
             queue := Done (key n) (AddRateLimited n (taken (queue c) n ns))\<rparr>)"
  using assms
  by (simp add: processNextItem_def Get_pending processItem_error NumRequeues_def taken_def)

lemma processNextItem_give_up:
  assumes "pending (queue c) = n # ns" and "\<not> shuttingDown (queue c)"
    and "GetByKey env (key n) = (obj, ex, Some e0)"
    and "\<not> requeues (queue c) (key n) < maxRetries"
  shows "processNextItem env p c =
     Some (True, c\<lparr>logger := logger c @
               [''Error processing '' @ key n @ '' (giving up): '' @
                ''Error fetching object with key '' @ key n @ '' from store: '' @ e0],
             handled_errors := handled_errors c @
               [''Error fetching object with key '' @ key n @ '' from store: '' @ e0],
             queue := Done (key n) (Forget (key n) (taken (queue c) n ns))\<rparr>)"
  using assms
  by (simp add: processNextItem_def Get_pending processItem_error NumRequeues_def taken_def)

lemma processNextItem_success:
  assumes "pending (queue c) = n # ns" and "\<not> shuttingDown (queue c)"
    and "fst (processItem env p n (c\<lparr>queue := taken (queue c) n ns\<rparr>)) = None"
  shows "processNextItem env p c =
     Some (True, (snd (processItem env p n (c\<lparr>queue := taken (queue c) n ns\<rparr>)))
                   \<lparr>queue := Done (key n) (Forget (key n) (taken (queue c) n ns))\<rparr>)"
proof -
  obtain c1 where pi: "processItem env p n (c\<lparr>queue := taken (queue c) n ns\<rparr>) = (None, c1)"
    using assms(3) by (cases "processItem env p n (c\<lparr>queue := taken (queue c) n ns\<rparr>)") auto
  have "queue c1 = taken (queue c) n ns"
    using queue_processItem [of env p n "c\<lparr>queue := taken (queue c) n ns\<rparr>"] pi by simp
  then show ?thesis
    using assms(1,2) pi by (simp add: processNextItem_def Get_pending)
qed

lemma runWorker_parks:
  "pending (queue c) = [] \<Longrightarrow> \<not> shuttingDown (queue c) \<Longrightarrow> runWorker env p c = Parked c"
  by (subst runWorker.simps) (simp add: processNextItem_def Get_def)

lemma runWorker_continue:
  "processNextItem env p c = Some (True, c') \<Longrightarrow> runWorker env p c = runWorker env p c'"
  by (subst runWorker.simps) simp

lemma Done_retry_single:
  "held q = [] \<Longrightarrow>
   Done (key n) (AddRateLimited n (taken q n [])) =
     q\<lparr>pending := [n], inflight := removeAll (key n) (inflight q),
       requeues := (requeues q)(key n := requeues q (key n) + 1)\<rparr>"
  by (simp add: Done_def AddRateLimited_taken coalesce_def)

lemma Done_forget_single:
  "held q = [] \<Longrightarrow>
   Done (key n) (Forget (key n) (taken q n [])) =
     q\<lparr>pending := [], inflight := removeAll (key n) (inflight q),
       requeues := (requeues q)(key n := 0)\<rparr>"
  by (simp add: Done_def Forget_def taken_def)

text \<open>
  A notice alone in the queue whose lookup fails with an error, with \<open>j\<close> retries left:
  the loop retries it \<open>j\<close> times, gives it up, and waits with an empty queue.
\<close>

lemma drain_failing_item:
  assumes err: "GetByKey env (key n) = (obj, ex, Some e0)"
  shows "pending (queue c) = [n] \<Longrightarrow> held (queue c) = [] \<Longrightarrow> \<not> shuttingDown (queue c) \<Longrightarrow>
     requeues (queue c) (key n) + j = maxRetries \<Longrightarrow>
     \<exists>c'. runWorker env p c = Parked c'
        \<and> pending (queue c') = [] \<and> held (queue c') = [] \<and> \<not> shuttingDown (queue c')
        \<and> requeues (queue c') (key n) = 0
        \<and> logger c' = logger c
             @ replicate j (''Error processing '' @ key n @ '' (will retry): '' @
                 ''Error fetching object with key '' @ key n @ '' from store: '' @ e0)
             @ [''Error processing '' @ key n @ '' (giving up): '' @
                 ''Error fetching object with key '' @ key n @ '' from store: '' @ e0]
        \<and> handled_errors c' = handled_errors c
             @ [''Error fetching object with key '' @ key n @ '' from store: '' @ e0]
        \<and> handler_calls c' = handler_calls c"
proof (induction j arbitrary: c)
  case 0
  let ?c1 = "c\<lparr>logger := logger c @
               [''Error processing '' @ key n @ '' (giving up): '' @
                ''Error fetching object with key '' @ key n @ '' from store: '' @ e0],
             handled_errors := handled_errors c @
               [''Error fetching object with key '' @ key n @ '' from store: '' @ e0],
             queue := Done (key n) (Forget (key n) (taken (queue c) n []))\<rparr>"
  have step: "processNextItem env p c = Some (True, ?c1)"
    using "0.prems" by (intro processNextItem_give_up [OF _ _ err]) simp_all
  have "runWorker env p c = runWorker env p ?c1"
    by (rule runWorker_continue [OF step])
  also have "\<dots> = Parked ?c1"
    using "0.prems" by (intro runWorker_parks) (simp_all add: Done_forget_single)
  finally show ?case
    using "0.prems" by (simp add: Done_forget_single)
next
  case (Suc j)
  let ?c1 = "c\<lparr>logger := logger c @
               [''Error processing '' @ key n @ '' (will retry): '' @
                ''Error fetching object with key '' @ key n @ '' from store: '' @ e0],
             queue := Done (key n) (AddRateLimited n (taken (queue c) n []))\<rparr>"
  have step: "processNextItem env p c = Some (True, ?c1)"
    using Suc.prems by (intro processNextItem_retry [OF _ _ err]) simp_all
  have "\<exists>c'. runWorker env p ?c1 = Parked c'
        \<and> pending (queue c') = [] \<and> held (queue c') = [] \<and> \<not> shuttingDown (queue c')
        \<and> requeues (queue c') (key n) = 0
        \<and> logger c' = logger ?c1
             @ replicate j (''Error processing '' @ key n @ '' (will retry): '' @
                 ''Error fetching object with key '' @ key n @ '' from store: '' @ e0)
             @ [''Error processing '' @ key n @ '' (giving up): '' @
                 ''Error fetching object with key '' @ key n @ '' from store: '' @ e0]
        \<and> handled_errors c' = handled_errors ?c1
             @ [''Error fetching object with key '' @ key n @ '' from store: '' @ e0]
        \<and> handler_calls c' = handler_calls ?c1"
    using Suc.prems by (intro Suc.IH) (simp_all add: Done_retry_single)
  then show ?case
    using runWorker_continue [OF step] by (simp add: replicate_app_Cons_same)
qed

subsection \<open>Errors and retries\<close>

text \<open>
  \<open>processItem\<close> reports an error exactly when the lookup returned one, and then leaves
  the controller as it was; otherwise it only adds handler calls.
\<close>

lemma processItem_Some:
  assumes "fst (processItem env p n c) = Some e"
  shows "\<exists>obj ex e0. GetByKey env (key n) = (obj, ex, Some e0)
           \<and> e = ''Error fetching object with key '' @ key n @ '' from store: '' @ e0"
proof (cases "GetByKey env (key n)")
  case (fields obj ex err)
  show ?thesis
  proof (cases err)
    case None
    with fields assms show ?thesis by (simp add: processItem_no_error)
  next
    case (Some e0)
    with fields assms show ?thesis by (auto simp: processItem_error)
  qed
qed

lemma processItem_keeps_logs:
  assumes "GetByKey env (key n) = (obj, ex, None)"
  shows "logger (snd (processItem env p n c)) = logger c
       \<and> handled_errors (snd (processItem env p n c)) = handled_errors c"
proof -
  consider "eventType n = ''create''" | "eventType n = ''update''" | "eventType n = ''delete''"
    | "eventType n \<noteq> ''create''" "eventType n \<noteq> ''update''" "eventType n \<noteq> ''delete''"
    by blast
  then show ?thesis
    using assms
    by cases (simp_all add: processItem_create processItem_update processItem_delete
        processItem_other)
qed

lemma processNextItem_no_error:
  assumes "GetByKey env (key n) = (obj, ex, None)"
    and "pending (queue c) = n # ns" and "\<not> shuttingDown (queue c)"
  shows "\<exists>c'. processNextItem env p c = Some (True, c')
          \<and> NumRequeues (key n) (queue c') = 0
          \<and> logger c' = logger c \<and> handled_errors c' = handled_errors c
          \<and> handler_calls c' = handler_calls (snd (processItem env p n c))"
proof -
  let ?c0 = "c\<lparr>queue := taken (queue c) n ns\<rparr>"
  have ok: "fst (processItem env p n ?c0) = None"
    using assms(1) by (rule processItem_no_error)
  have calls: "handler_calls (snd (processItem env p n ?c0))
      = handler_calls (snd (processItem env p n c))"
  proof -
    consider "eventType n = ''create''" | "eventType n = ''update''" | "eventType n = ''delete''"
      | "eventType n \<noteq> ''create''" "eventType n \<noteq> ''update''" "eventType n \<noteq> ''delete''"
      by blast
    then show ?thesis
      using assms(1)
      by cases (simp_all add: processItem_create processItem_update processItem_delete
          processItem_other)
  qed
  have logs: "logger (snd (processItem env p n ?c0)) = logger c"
      "handled_errors (snd (processItem env p n ?c0)) = handled_errors c"
    using processItem_keeps_logs [OF assms(1), of p ?c0] by simp_all
  show ?thesis
    using processNextItem_success [OF assms(2,3) ok] calls logs
    by (simp add: NumRequeues_def Done_def Forget_def)
qed

text \<open>
  C3. A notice whose processing fails, handed out from any open queue:
  while the retry count of its key is below five, the round logs "will retry", counts one
  more retry and puts the notice back with \<open>AddRateLimited\<close>, and reports no error;
  once the count has reached five, the round logs "giving up", clears the count with
  \<open>Forget\<close>, passes the error to \<open>HandleError\<close> and does not put the notice back (only
  notices added for the key in the meantime wait afterwards). For such a notice alone in
  the queue with a count of zero the drain loop therefore retries exactly five times,
  gives up at the sixth failure and then waits in \<open>Get\<close> with an empty queue. And a
  round in which processing succeeds ends with the retry count of the key at zero, with
  nothing logged and no error reported.
\<close>

theorem C3_retry_bound:
  "(fst (processItem env p n c) = Some e \<and> pending (queue c) = n # ns
      \<and> \<not> shuttingDown (queue c) \<and> NumRequeues (key n) (queue c) < maxRetries \<longrightarrow>
      (\<exists>c'. processNextItem env p c = Some (True, c')
         \<and> NumRequeues (key n) (queue c') = NumRequeues (key n) (queue c) + 1
         \<and> n \<in> set (pending (queue c'))
         \<and> logger c' = logger c @ [''Error processing '' @ key n @ '' (will retry): '' @ e]
         \<and> handled_errors c' = handled_errors c))
   \<and> (fst (processItem env p n c) = Some e \<and> pending (queue c) = n # ns
      \<and> \<not> shuttingDown (queue c) \<and> \<not> NumRequeues (key n) (queue c) < maxRetries \<longrightarrow>
      (\<exists>c'. processNextItem env p c = Some (True, c')
         \<and> NumRequeues (key n) (queue c') = 0
         \<and> pending (queue c') = ns @ filter (\<lambda>m. key m = key n) (held (queue c))
         \<and> logger c' = logger c @ [''Error processing '' @ key n @ '' (giving up): '' @ e]
         \<and> handled_errors c' = handled_errors c @ [e]))
   \<and> (fst (processItem env p n c) = Some e \<and> pending (queue c) = [n] \<and> held (queue c) = []
      \<and> \<not> shuttingDown (queue c) \<and> NumRequeues (key n) (queue c) = 0 \<longrightarrow>
      (\<exists>c'. runWorker env p c = Parked c'
         \<and> logger c' = logger c
              @ replicate 5 (''Error processing '' @ key n @ '' (will retry): '' @ e)
              @ [''Error processing '' @ key n @ '' (giving up): '' @ e]
         \<and> handled_errors c' = handled_errors c @ [e]
         \<and> NumRequeues (key n) (queue c') = 0
         \<and> pending (queue c') = [] \<and> held (queue c') = []
         \<and> handler_calls c' = handler_calls c))
   \<and> (fst (processItem env p n c) = None \<and> pending (queue c) = n # ns
      \<and> \<not> shuttingDown (queue c) \<longrightarrow>
      (\<exists>c'. processNextItem env p c = Some (True, c')
         \<and> NumRequeues (key n) (queue c') = 0
         \<and> logger c' = logger c \<and> handled_errors c' = handled_errors c))"
proof (intro conjI impI)
  assume a: "fst (processItem env p n c) = Some e \<and> pending (queue c) = n # ns
      \<and> \<not> shuttingDown (queue c) \<and> NumRequeues (key n) (queue c) < maxRetries"
  then obtain obj ex e0 where g: "GetByKey env (key n) = (obj, ex, Some e0)"
    and e: "e = ''Error fetching object with key '' @ key n @ '' from store: '' @ e0"
    using processItem_Some [of env p n c e] by blast
  have r: "requeues (queue c) (key n) < maxRetries"
    using a by (simp add: NumRequeues_def)
  have requeued: "n \<in> set (pending (Done (key n) (AddRateLimited n (taken (queue c) n ns))))"
    using coalesce_member [of n "held (queue c)"] by (simp add: Done_def AddRateLimited_taken)
  have count: "requeues (Done (key n) (AddRateLimited n (taken (queue c) n ns))) (key n)
      = requeues (queue c) (key n) + 1"
    by (simp add: Done_def AddRateLimited_taken)
  from processNextItem_retry [OF _ _ g r, of ns p] a
  show "\<exists>c'. processNextItem env p c = Some (True, c')
         \<and> NumRequeues (key n) (queue c') = NumRequeues (key n) (queue c) + 1
         \<and> n \<in> set (pending (queue c'))
         \<and> logger c' = logger c @ [''Error processing '' @ key n @ '' (will retry): '' @ e]
         \<and> handled_errors c' = handled_errors c"
    using requeued count by (simp add: e NumRequeues_def)
next
  assume a: "fst (processItem env p n c) = Some e \<and> pending (queue c) = n # ns
      \<and> \<not> shuttingDown (queue c) \<and> \<not> NumRequeues (key n) (queue c) < maxRetries"
  then obtain obj ex e0 where g: "GetByKey env (key n) = (obj, ex, Some e0)"
    and e: "e = ''Error fetching object with key '' @ key n @ '' from store: '' @ e0"
    using processItem_Some [of env p n c e] by blast
  have r: "\<not> requeues (queue c) (key n) < maxRetries"
    using a by (simp add: NumRequeues_def)
  have left: "pending (Done (key n) (Forget (key n) (taken (queue c) n ns)))
      = ns @ filter (\<lambda>m. key m = key n) (held (queue c))"
    by (simp add: Done_def Forget_def taken_def)
  have count: "requeues (Done (key n) (Forget (key n) (taken (queue c) n ns))) (key n) = 0"
    by (simp add: Done_def Forget_def)
  from processNextItem_give_up [OF _ _ g r, of ns p] a
  show "\<exists>c'. processNextItem env p c = Some (True, c')
         \<and> NumRequeues (key n) (queue c') = 0
         \<and> pending (queue c') = ns @ filter (\<lambda>m. key m = key n) (held (queue c))
         \<and> logger c' = logger c @ [''Error processing '' @ key n @ '' (giving up): '' @ e]
         \<and> handled_errors c' = handled_errors c @ [e]"
    using left count by (simp add: e NumRequeues_def)
next
  assume a: "fst (processItem env p n c) = Some e \<and> pending (queue c) = [n] \<and> held (queue c) = []
      \<and> \<not> shuttingDown (queue c) \<and> NumRequeues (key n) (queue c) = 0"
  then obtain obj ex e0 where g: "GetByKey env (key n) = (obj, ex, Some e0)"
    and e: "e = ''Error fetching object with key '' @ key n @ '' from store: '' @ e0"
    using processItem_Some [of env p n c e] by blast
  have "requeues (queue c) (key n) + 5 = maxRetries"
    using a by (simp add: NumRequeues_def maxRetries_def)
  from drain_failing_item [OF g _ _ _ this, of p] a e
  show "\<exists>c'. runWorker env p c = Parked c'
         \<and> logger c' = logger c
              @ replicate 5 (''Error processing '' @ key n @ '' (will retry): '' @ e)
              @ [''Error processing '' @ key n @ '' (giving up): '' @ e]
         \<and> handled_errors c' = handled_errors c @ [e]
         \<and> NumRequeues (key n) (queue c') = 0
         \<and> pending (queue c') = [] \<and> held (queue c') = []
         \<and> handler_calls c' = handler_calls c"
    by (auto simp: NumRequeues_def)
next
  assume a: "fst (processItem env p n c) = None \<and> pending (queue c) = n # ns
      \<and> \<not> shuttingDown (queue c)"
  obtain obj ex err where g: "GetByKey env (key n) = (obj, ex, err)"
    by (cases "GetByKey env (key n)")
  have "err = None"
  proof (cases err)
    case (Some e0)
    with g a show ?thesis by (simp add: processItem_error)
  qed simp
  with g have "GetByKey env (key n) = (obj, ex, None)" by simp
  from processNextItem_no_error [OF this, of c ns p] a
  show "\<exists>c'. processNextItem env p c = Some (True, c')
         \<and> NumRequeues (key n) (queue c') = 0
         \<and> logger c' = logger c \<and> handled_errors c' = handled_errors c"
    by blast
qed

text \<open>
  The theorem in the example environment. With a store that answers every lookup with
  the error "store closed", a queued update notice is put back while its retry count is
  zero and dropped when the count is five, and the drain loop retries it five times and
  gives it up; with the store of the example environment one round succeeds and leaves
  the retry count at zero.
\<close>

theorem C3_retry_bound_witness:
  "(\<exists>c'. processNextItem (demo_env\<lparr>GetByKey := (\<lambda>k. (None, False, Some ''store closed''))\<rparr>)
            demo_pkg (newResourceController\<lparr>queue := Add (demo_notice ''update'') emptyQueue\<rparr>)
          = Some (True, c')
        \<and> NumRequeues ''default/web'' (queue c') = 1
        \<and> pending (queue c') = [demo_notice ''update''] \<and> handled_errors c' = [])
   \<and> (\<exists>c'. processNextItem (demo_env\<lparr>GetByKey := (\<lambda>k. (None, False, Some ''store closed''))\<rparr>)
            demo_pkg
            (newResourceController
               \<lparr>queue := (Add (demo_notice ''update'') emptyQueue)\<lparr>requeues := (\<lambda>k. 5)\<rparr>\<rparr>)
          = Some (True, c')
        \<and> NumRequeues ''default/web'' (queue c') = 0 \<and> pending (queue c') = []
        \<and> handled_errors c' =
             [''Error fetching object with key default/web from store: store closed''])
   \<and> (\<exists>c'. runWorker (demo_env\<lparr>GetByKey := (\<lambda>k. (None, False, Some ''store closed''))\<rparr>) demo_pkg
            (newResourceController\<lparr>queue := Add (demo_notice ''update'') emptyQueue\<rparr>) = Parked c'
        \<and> logger c' =
             replicate 5 (''Error processing default/web (will retry): '' @
                          ''Error fetching object with key default/web from store: store closed'')
             @ [''Error processing default/web (giving up): '' @
                ''Error fetching object with key default/web from store: store closed'']
        \<and> handled_errors c' =
             [''Error fetching object with key default/web from store: store closed'']
        \<and> pending (queue c') = [])
   \<and> (\<exists>c'. processNextItem demo_env demo_pkg
            (newResourceController\<lparr>queue := Add (demo_notice ''update'') emptyQueue\<rparr>)
          = Some (True, c')
        \<and> NumRequeues ''default/web'' (queue c') = 0)"
proof -
  let ?env = "demo_env\<lparr>GetByKey := (\<lambda>k. (None, False, Some ''store closed''))\<rparr>"
  let ?n = "demo_notice ''update''"
  let ?c = "newResourceController\<lparr>queue := Add ?n emptyQueue\<rparr> :: string Controller"
  let ?c5 = "newResourceController\<lparr>queue := (Add ?n emptyQueue)\<lparr>requeues := (\<lambda>k. 5)\<rparr>\<rparr>
               :: string Controller"
  let ?e = "''Error fetching object with key default/web from store: store closed''"
  have q: "pending (queue ?c) = [?n]" "held (queue ?c) = []" "\<not> shuttingDown (queue ?c)"
      "NumRequeues (key ?n) (queue ?c) = 0"
    by (simp_all add: Add_def emptyQueue_def coalesce_def NumRequeues_def)
  have q5: "pending (queue ?c5) = [?n]" "held (queue ?c5) = []" "\<not> shuttingDown (queue ?c5)"
      "NumRequeues (key ?n) (queue ?c5) = 5"
    by (simp_all add: Add_def emptyQueue_def coalesce_def NumRequeues_def)
  have k: "key ?n = ''default/web''"
    by (simp add: demo_notice_def)
  have fails: "fst (processItem ?env demo_pkg ?n c) = Some ?e" for c :: "string Controller"
    by (simp add: processItem_error [of _ _ None False "''store closed''"] k)
  have ok: "fst (processItem demo_env demo_pkg ?n ?c) = None"
    by (rule processItem_no_error [of _ _ "Some ''default/web''" True])
      (simp add: demo_env_def k)
  from C3_retry_bound [of ?env demo_pkg ?n ?c ?e "[]"] fails [of ?c] q
  have "\<exists>c'. processNextItem ?env demo_pkg ?c = Some (True, c')
         \<and> NumRequeues (key ?n) (queue c') = NumRequeues (key ?n) (queue ?c) + 1
         \<and> ?n \<in> set (pending (queue c'))
         \<and> logger c' = logger ?c @ [''Error processing '' @ key ?n @ '' (will retry): '' @ ?e]
         \<and> handled_errors c' = handled_errors ?c"
    by (simp add: maxRetries_def)
  moreover have "pending (queue c') = [?n]"
    if "processNextItem ?env demo_pkg ?c = Some (True, c')" for c'
    using that processNextItem_retry [of ?c ?n "[]" ?env None False "''store closed''" demo_pkg] q
    by (auto simp: NumRequeues_def maxRetries_def Done_retry_single)
  ultimately have first: "\<exists>c'. processNextItem ?env demo_pkg ?c = Some (True, c')
        \<and> NumRequeues ''default/web'' (queue c') = 1
        \<and> pending (queue c') = [?n] \<and> handled_errors c' = []"
    using q(4) by (auto simp: k newResourceController_fields)
  from C3_retry_bound [of ?env demo_pkg ?n ?c5 ?e "[]"] fails [of ?c5] q5
  have "\<exists>c'. processNextItem ?env demo_pkg ?c5 = Some (True, c')
         \<and> NumRequeues (key ?n) (queue c') = 0
         \<and> pending (queue c') = [] @ filter (\<lambda>m. key m = key ?n) (held (queue ?c5))
         \<and> logger c' = logger ?c5 @ [''Error processing '' @ key ?n @ '' (giving up): '' @ ?e]
         \<and> handled_errors c' = handled_errors ?c5 @ [?e]"
    by (simp add: maxRetries_def)
  then have second: "\<exists>c'. processNextItem ?env demo_pkg ?c5 = Some (True, c')
        \<and> NumRequeues ''default/web'' (queue c') = 0 \<and> pending (queue c') = []
        \<and> handled_errors c' = [?e]"
    using q5(2) by (auto simp: k newResourceController_fields)
  from C3_retry_bound [of ?env demo_pkg ?n ?c ?e "[]"] fails [of ?c] q
  have "\<exists>c'. runWorker ?env demo_pkg ?c = Parked c'
         \<and> logger c' = logger ?c
              @ replicate 5 (''Error processing '' @ key ?n @ '' (will retry): '' @ ?e)
              @ [''Error processing '' @ key ?n @ '' (giving up): '' @ ?e]
         \<and> handled_errors c' = handled_errors ?c @ [?e]
         \<and> NumRequeues (key ?n) (queue c') = 0
         \<and> pending (queue c') = [] \<and> held (queue c') = []
         \<and> handler_calls c' = handler_calls ?c"
    by blast
  then have third: "\<exists>c'. runWorker ?env demo_pkg ?c = Parked c'
        \<and> logger c' =
             replicate 5 (''Error processing default/web (will retry): '' @ ?e)
             @ [''Error processing default/web (giving up): '' @ ?e]
        \<and> handled_errors c' = [?e]
        \<and> pending (queue c') = []"
    by (auto simp: k newResourceController_fields)
  from C3_retry_bound [of demo_env demo_pkg ?n ?c ?e "[]"] ok q
  have "\<exists>c'. processNextItem demo_env demo_pkg ?c = Some (True, c')
         \<and> NumRequeues (key ?n) (queue c') = 0
         \<and> logger c' = logger ?c \<and> handled_errors c' = handled_errors ?c"
    by blast
  then have fourth: "\<exists>c'. processNextItem demo_env demo_pkg ?c = Some (True, c')
        \<and> NumRequeues ''default/web'' (queue c') = 0"
    by (auto simp: k)
  from first second third fourth show ?thesis by blast
qed

text \<open>
  A notice alone in the queue whose lookup returns no error: it is processed once and
  the loop waits with an empty queue; nothing is logged, retried or reported.
\<close>

lemma drain_ok_item:
  assumes g: "GetByKey env (key n) = (obj, ex, None)"
    and q: "pending (queue c) = [n]" "held (queue c) = []" "\<not> shuttingDown (queue c)"
  shows "\<exists>c'. runWorker env p c = Parked c'
        \<and> pending (queue c') = [] \<and> held (queue c') = []
        \<and> NumRequeues (key n) (queue c') = 0
        \<and> logger c' = logger c \<and> handled_errors c' = handled_errors c
        \<and> handler_calls c' = handler_calls (snd (processItem env p n c))"
proof -
  let ?c0 = "c\<lparr>queue := taken (queue c) n []\<rparr>"
  let ?c1 = "(snd (processItem env p n ?c0))
               \<lparr>queue := Done (key n) (Forget (key n) (taken (queue c) n []))\<rparr>"
  have ok: "fst (processItem env p n ?c0) = None"
    using g by (rule processItem_no_error)
  have step: "processNextItem env p c = Some (True, ?c1)"
    by (rule processNextItem_success [OF q(1) q(3) ok])
  obtain c' where c': "processNextItem env p c = Some (True, c')"
      "NumRequeues (key n) (queue c') = 0" "logger c' = logger c"
      "handled_errors c' = handled_errors c"
      "handler_calls c' = handler_calls (snd (processItem env p n c))"
    using processNextItem_no_error [OF g q(1) q(3), of p] by blast
  have same: "c' = ?c1" using step c'(1) by simp
  have q1: "pending (queue c') = []" "held (queue c') = []" "\<not> shuttingDown (queue c')"
    using q by (simp_all add: same Done_forget_single)
  have "runWorker env p c = runWorker env p c'"
    by (rule runWorker_continue [OF c'(1)])
  also have "\<dots> = Parked c'"
    by (rule runWorker_parks [OF q1(1) q1(3)])
  finally show ?thesis using c' q1 by blast
qed

text \<open>
  C4, as the controller behaves. What the handler reports has no effect on \<open>processItem\<close>:
  with any handler in place of the controller's the result is the same, and it is never
  an error when the lookup returned none. So a notice alone in the queue is handed to
  the handler once, whatever the handler reports, and is neither retried nor reported.
\<close>

theorem C4_handler_report_dropped:
  "processItem (env\<lparr>eventHandler := h\<rparr>) p n c = processItem env p n c
   \<and> (GetByKey env (key n) = (obj, ex, None) \<longrightarrow>
        fst (processItem (env\<lparr>eventHandler := h\<rparr>) p n c) = None)
   \<and> (GetByKey env (key n) = (obj, ex, None) \<and> pending (queue c) = [n] \<and> held (queue c) = []
        \<and> \<not> shuttingDown (queue c) \<longrightarrow>
        (\<exists>c'. runWorker (env\<lparr>eventHandler := h\<rparr>) p c = Parked c'
           \<and> handler_calls c' = handler_calls (snd (processItem env p n c))
           \<and> logger c' = logger c \<and> handled_errors c' = handled_errors c
           \<and> NumRequeues (key n) (queue c') = 0 \<and> pending (queue c') = []))"
proof (intro conjI impI)
  show "processItem (env\<lparr>eventHandler := h\<rparr>) p n c = processItem env p n c"
    by (rule processItem_handler_irrelevant)
next
  assume "GetByKey env (key n) = (obj, ex, None)"
  then have "GetByKey (env\<lparr>eventHandler := h\<rparr>) (key n) = (obj, ex, None)" by simp
  then show "fst (processItem (env\<lparr>eventHandler := h\<rparr>) p n c) = None"
    by (rule processItem_no_error)
next
  assume a: "GetByKey env (key n) = (obj, ex, None) \<and> pending (queue c) = [n] \<and> held (queue c) = []
        \<and> \<not> shuttingDown (queue c)"
  then have g: "GetByKey (env\<lparr>eventHandler := h\<rparr>) (key n) = (obj, ex, None)" by simp
  from drain_ok_item [OF g, of c p] a
  show "\<exists>c'. runWorker (env\<lparr>eventHandler := h\<rparr>) p c = Parked c'
           \<and> handler_calls c' = handler_calls (snd (processItem env p n c))
           \<and> logger c' = logger c \<and> handled_errors c' = handled_errors c
           \<and> NumRequeues (key n) (queue c') = 0 \<and> pending (queue c') = []"
    by (auto simp: processItem_handler_irrelevant)
qed

text \<open>
  The theorem in the example environment with a handler that fails on every call: an
  update notice for a pod is handed to the handler once; nothing is logged or reported.
\<close>

theorem C4_handler_report_dropped_witness:
  "\<exists>c'. runWorker (demo_env\<lparr>eventHandler := (\<lambda>hc. Some ''sink unreachable'')\<rparr>) demo_pkg
          (newResourceController\<lparr>queue := Add (demo_notice ''update'') emptyQueue\<rparr>) = Parked c'
      \<and> handler_calls c' =
           [ObjectUpdated (Some ''default/web'')
              \<lparr>Kind = ''pod'', Name = ''default/web'', event_Namespace = ''default''\<rparr>]
      \<and> logger c' = [] \<and> handled_errors c' = [] \<and> pending (queue c') = []"
proof -
  let ?n = "demo_notice ''update''"
  let ?c = "newResourceController\<lparr>queue := Add ?n emptyQueue\<rparr> :: string Controller"
  have g: "GetByKey demo_env (key ?n) = (Some ''default/web'', True, None)"
    by (simp add: demo_env_def demo_notice_def)
  have q: "pending (queue ?c) = [?n]" "held (queue ?c) = []" "\<not> shuttingDown (queue ?c)"
    by (simp_all add: Add_def emptyQueue_def coalesce_def)
  have calls: "handler_calls (snd (processItem demo_env demo_pkg ?n ?c)) =
      [ObjectUpdated (Some ''default/web'')
         \<lparr>Kind = ''pod'', Name = ''default/web'', event_Namespace = ''default''\<rparr>]"
    by (simp add: processItem_update [OF g demo_notice_fields(2)] demo_notice_fields
        demo_pkg_fields newResourceController_def)
  from C4_handler_report_dropped
    [where env = demo_env and h = "\<lambda>hc. Some ''sink unreachable''" and p = demo_pkg
       and n = ?n and c = ?c and obj = "Some ''default/web''" and ex = True]
    g q
  have "\<exists>c'. runWorker (demo_env\<lparr>eventHandler := (\<lambda>hc. Some ''sink unreachable'')\<rparr>) demo_pkg ?c
            = Parked c'
           \<and> handler_calls c' = handler_calls (snd (processItem demo_env demo_pkg ?n ?c))
           \<and> logger c' = logger ?c \<and> handled_errors c' = handled_errors ?c
           \<and> NumRequeues (key ?n) (queue c') = 0 \<and> pending (queue c') = []"
    by blast
  then show ?thesis
    by (auto simp: calls newResourceController_fields)
qed

text \<open>
  C4 does not hold as the specification states it. In the example environment with a
  handler that reports a failure for every call, the call for an update notice does
  report the failure, yet \<open>processItem\<close> returns no error, and the drain loop makes
  that one call and no retry.
\<close>

theorem C4_handler_failure_counterexample:
  "fst (invoke (demo_env\<lparr>eventHandler := (\<lambda>hc. Some ''sink unreachable'')\<rparr>)
          (ObjectUpdated (Some ''default/web'')
             \<lparr>Kind = ''pod'', Name = ''default/web'', event_Namespace = ''default''\<rparr>)
          (newResourceController :: string Controller)) = Some ''sink unreachable''
   \<and> processItem (demo_env\<lparr>eventHandler := (\<lambda>hc. Some ''sink unreachable'')\<rparr>) demo_pkg
        (demo_notice ''update'') newResourceController
      = (None, newResourceController\<lparr>handler_calls :=
           [ObjectUpdated (Some ''default/web'')
              \<lparr>Kind = ''pod'', Name = ''default/web'', event_Namespace = ''default''\<rparr>]\<rparr>)
   \<and> (\<exists>c'. runWorker (demo_env\<lparr>eventHandler := (\<lambda>hc. Some ''sink unreachable'')\<rparr>) demo_pkg
          (newResourceController\<lparr>queue := Add (demo_notice ''update'') emptyQueue\<rparr>) = Parked c'
      \<and> handler_calls c' =
           [ObjectUpdated (Some ''default/web'')
              \<lparr>Kind = ''pod'', Name = ''default/web'', event_Namespace = ''default''\<rparr>]
      \<and> logger c' = [] \<and> handled_errors c' = [] \<and> pending (queue c') = [])"
proof -
  let ?env = "demo_env\<lparr>eventHandler := (\<lambda>hc. Some ''sink unreachable'')\<rparr>"
  let ?n = "demo_notice ''update''"
  let ?c = "newResourceController\<lparr>queue := Add ?n emptyQueue\<rparr> :: string Controller"
  have g: "GetByKey ?env (key ?n) = (Some ''default/web'', True, None)"
    by (simp add: demo_env_def demo_notice_def)
  have q: "pending (queue ?c) = [?n]" "held (queue ?c) = []" "\<not> shuttingDown (queue ?c)"
    by (simp_all add: Add_def emptyQueue_def coalesce_def)
  have one: "fst (invoke ?env
          (ObjectUpdated (Some ''default/web'')
             \<lparr>Kind = ''pod'', Name = ''default/web'', event_Namespace = ''default''\<rparr>)
          (newResourceController :: string Controller)) = Some ''sink unreachable''"
    by (simp add: invoke_def)
  have two: "processItem ?env demo_pkg ?n newResourceController
      = (None, newResourceController\<lparr>handler_calls :=
           [ObjectUpdated (Some ''default/web'')
              \<lparr>Kind = ''pod'', Name = ''default/web'', event_Namespace = ''default''\<rparr>]\<rparr>)"
    by (simp add: processItem_update [OF g demo_notice_fields(2)] demo_notice_fields
        demo_pkg_fields newResourceController_def)
  have calls: "handler_calls (snd (processItem ?env demo_pkg ?n ?c)) =
      [ObjectUpdated (Some ''default/web'')
         \<lparr>Kind = ''pod'', Name = ''default/web'', event_Namespace = ''default''\<rparr>]"
    by (simp add: processItem_update [OF g demo_notice_fields(2)] demo_notice_fields
        demo_pkg_fields newResourceController_def)
  from drain_ok_item [OF g q, of demo_pkg]
  have three: "\<exists>c'. runWorker ?env demo_pkg ?c = Parked c'
      \<and> handler_calls c' =
           [ObjectUpdated (Some ''default/web'')
              \<lparr>Kind = ''pod'', Name = ''default/web'', event_Namespace = ''default''\<rparr>]
      \<and> logger c' = [] \<and> handled_errors c' = [] \<and> pending (queue c') = []"
    by (auto simp: calls newResourceController_fields)
  from one two three show ?thesis by blast
qed

text \<open>
  C5, as the controller behaves. When the lookup returns an error, \<open>processItem\<close> returns a
  processing error and leaves the controller as it was; a notice alone in an open queue
  with a retry count of zero is then retried five times, given up and its error passed
  to \<open>HandleError\<close>. When the lookup returns no error, whether or not it found the
  object, \<open>processItem\<close> returns no error.
\<close>

theorem C5_lookup_error_retried:
  "(GetByKey env (key n) = (obj, ex, Some e0) \<longrightarrow>
      processItem env p n c =
        (Some (''Error fetching object with key '' @ key n @ '' from store: '' @ e0), c))
   \<and> (GetByKey env (key n) = (obj, ex, Some e0) \<and> pending (queue c) = [n] \<and> held (queue c) = []
       \<and> \<not> shuttingDown (queue c) \<and> NumRequeues (key n) (queue c) = 0 \<longrightarrow>
      (\<exists>c'. runWorker env p c = Parked c'
         \<and> logger c' = logger c
              @ replicate 5 (''Error processing '' @ key n @ '' (will retry): '' @
                  ''Error fetching object with key '' @ key n @ '' from store: '' @ e0)
              @ [''Error processing '' @ key n @ '' (giving up): '' @
                  ''Error fetching object with key '' @ key n @ '' from store: '' @ e0]
         \<and> handled_errors c' = handled_errors c
              @ [''Error fetching object with key '' @ key n @ '' from store: '' @ e0]
         \<and> pending (queue c') = [] \<and> handler_calls c' = handler_calls c))
   \<and> (GetByKey env (key n) = (obj, ex, None) \<longrightarrow> fst (processItem env p n c) = None)"
proof (intro conjI impI)
  assume "GetByKey env (key n) = (obj, ex, Some e0)"
  then show "processItem env p n c =
        (Some (''Error fetching object with key '' @ key n @ '' from store: '' @ e0), c)"
    by (rule processItem_error)
next
  assume a: "GetByKey env (key n) = (obj, ex, Some e0) \<and> pending (queue c) = [n]
       \<and> held (queue c) = [] \<and> \<not> shuttingDown (queue c) \<and> NumRequeues (key n) (queue c) = 0"
  then have g: "GetByKey env (key n) = (obj, ex, Some e0)" by simp
  have "requeues (queue c) (key n) + 5 = maxRetries"
    using a by (simp add: NumRequeues_def maxRetries_def)
  from drain_failing_item [OF g _ _ _ this, of p] a
  show "\<exists>c'. runWorker env p c = Parked c'
         \<and> logger c' = logger c
              @ replicate 5 (''Error processing '' @ key n @ '' (will retry): '' @
                  ''Error fetching object with key '' @ key n @ '' from store: '' @ e0)
              @ [''Error processing '' @ key n @ '' (giving up): '' @
                  ''Error fetching object with key '' @ key n @ '' from store: '' @ e0]
         \<and> handled_errors c' = handled_errors c
              @ [''Error fetching object with key '' @ key n @ '' from store: '' @ e0]
         \<and> pending (queue c') = [] \<and> handler_calls c' = handler_calls c"
    by auto
next
  assume "GetByKey env (key n) = (obj, ex, None)"
  then show "fst (processItem env p n c) = None"
    by (rule processItem_no_error)
qed

text \<open>
  The theorem in the example environment: with a store that answers "store closed" the
  delete notice is a processing error; with a store that finds nothing and reports no
  error it is not.
\<close>

theorem C5_lookup_error_retried_witness:
  "processItem (demo_env\<lparr>GetByKey := (\<lambda>k. (None, False, Some ''store closed''))\<rparr>) demo_pkg
       (demo_notice ''delete'') newResourceController
     = (Some ''Error fetching object with key default/web from store: store closed'',
        newResourceController)
   \<and> (\<exists>c'. runWorker (demo_env\<lparr>GetByKey := (\<lambda>k. (None, False, Some ''store closed''))\<rparr>) demo_pkg
            (newResourceController\<lparr>queue := Add (demo_notice ''delete'') emptyQueue\<rparr>) = Parked c'
        \<and> handled_errors c' =
             [''Error fetching object with key default/web from store: store closed'']
        \<and> length (logger c') = 6 \<and> pending (queue c') = [])
   \<and> fst (processItem (demo_env\<lparr>GetByKey := (\<lambda>k. (None, False, None))\<rparr>) demo_pkg
       (demo_notice ''delete'') newResourceController) = None"
proof -
  let ?envE = "demo_env\<lparr>GetByKey := (\<lambda>k. (None, False, Some ''store closed''))\<rparr>"
  let ?envM = "demo_env\<lparr>GetByKey := (\<lambda>k. (None, False, None))\<rparr>"
  let ?n = "demo_notice ''delete''"
  let ?c = "newResourceController\<lparr>queue := Add ?n emptyQueue\<rparr> :: string Controller"
  have k: "key ?n = ''default/web''"
    by (simp add: demo_notice_def)
  have gE: "GetByKey ?envE (key ?n) = (None, False, Some ''store closed'')"
    and gM: "GetByKey ?envM (key ?n) = (None, False, None)"
    by simp_all
  have q: "pending (queue ?c) = [?n]" "held (queue ?c) = []" "\<not> shuttingDown (queue ?c)"
      "NumRequeues (key ?n) (queue ?c) = 0"
    by (simp_all add: Add_def emptyQueue_def coalesce_def NumRequeues_def)
  from C5_lookup_error_retried
    [where env = ?envE and n = ?n and obj = None and ex = False and ?e0.0 = "''store closed''"
       and p = demo_pkg and c = newResourceController] gE
  have one: "processItem ?envE demo_pkg ?n newResourceController
     = (Some ''Error fetching object with key default/web from store: store closed'',
        newResourceController)"
    by (simp add: k)
  from C5_lookup_error_retried
    [where env = ?envE and n = ?n and obj = None and ex = False and ?e0.0 = "''store closed''"
       and p = demo_pkg and c = ?c] gE q
  have "\<exists>c'. runWorker ?envE demo_pkg ?c = Parked c'
         \<and> logger c' = logger ?c
              @ replicate 5 (''Error processing '' @ key ?n @ '' (will retry): '' @
                  ''Error fetching object with key '' @ key ?n @ '' from store: '' @ ''store closed'')
              @ [''Error processing '' @ key ?n @ '' (giving up): '' @
                  ''Error fetching object with key '' @ key ?n @ '' from store: '' @ ''store closed'']
         \<and> handled_errors c' = handled_errors ?c
              @ [''Error fetching object with key '' @ key ?n @ '' from store: '' @ ''store closed'']
         \<and> pending (queue c') = [] \<and> handler_calls c' = handler_calls ?c"
    by blast
  then have two: "\<exists>c'. runWorker ?envE demo_pkg ?c = Parked c'
        \<and> handled_errors c' =
             [''Error fetching object with key default/web from store: store closed'']
        \<and> length (logger c') = 6 \<and> pending (queue c') = []"
    by (auto simp: k newResourceController_fields)
  from C5_lookup_error_retried
    [where env = ?envM and n = ?n and obj = None and ex = False and p = demo_pkg
       and c = newResourceController] gM
  have three: "fst (processItem ?envM demo_pkg ?n newResourceController) = None"
    by blast
  from one two three show ?thesis by blast
qed

text \<open>
  C5 does not hold as the specification states it. In the example environment with a
  store in which the object is absent (no object, not found, no error), the delete
  notice for a pod is no processing error. The delete handler is called, and the drain loop neither retries
  nor reports anything.
\<close>

theorem C5_lookup_miss_counterexample:
  "GetByKey (demo_env\<lparr>GetByKey := (\<lambda>k. (None, False, None))\<rparr>) ''default/web''
     = (None, False, None)
   \<and> processItem (demo_env\<lparr>GetByKey := (\<lambda>k. (None, False, None))\<rparr>) demo_pkg
        (demo_notice ''delete'') newResourceController
      = (None, newResourceController\<lparr>handler_calls :=
           [ObjectDeleted \<lparr>Kind = ''pod'', Name = ''default/web'', event_Namespace = ''default''\<rparr>]\<rparr>)
   \<and> (\<exists>c'. runWorker (demo_env\<lparr>GetByKey := (\<lambda>k. (None, False, None))\<rparr>) demo_pkg
          (newResourceController\<lparr>queue := Add (demo_notice ''delete'') emptyQueue\<rparr>) = Parked c'
      \<and> logger c' = [] \<and> handled_errors c' = [] \<and> pending (queue c') = [])"
proof -
  let ?env = "demo_env\<lparr>GetByKey := (\<lambda>k. (None, False, None))\<rparr>"
  let ?n = "demo_notice ''delete''"
  let ?c = "newResourceController\<lparr>queue := Add ?n emptyQueue\<rparr> :: string Controller"
  have g: "GetByKey ?env (key ?n) = (None, False, None)"
    by simp
  have q: "pending (queue ?c) = [?n]" "held (queue ?c) = []" "\<not> shuttingDown (queue ?c)"
    by (simp_all add: Add_def emptyQueue_def coalesce_def)
  have one: "GetByKey ?env ''default/web'' = (None, False, None)"
    by simp
  have two: "processItem ?env demo_pkg ?n newResourceController
      = (None, newResourceController\<lparr>handler_calls :=
           [ObjectDeleted \<lparr>Kind = ''pod'', Name = ''default/web'', event_Namespace = ''default''\<rparr>]\<rparr>)"
    by (simp add: processItem_delete [OF g demo_notice_fields(2)] demo_notice_fields
        demo_pkg_fields newResourceController_def)
  from drain_ok_item [OF g q, of demo_pkg]
  have three: "\<exists>c'. runWorker ?env demo_pkg ?c = Parked c'
      \<and> logger c' = [] \<and> handled_errors c' = [] \<and> pending (queue c') = []"
    by (auto simp: newResourceController_fields)
  from one two three show ?thesis by blast
qed

subsection \<open>Starting and stopping\<close>




lemma fst_Run:
  "fst (state_of (Run env now synced stopCh (p, c))) = p\<lparr>serverStartTime := now\<rparr>"
  by (simp add: Run_def Let_def split: outcome.splits)




subsection \<open>The start time is one package variable\<close>

text \<open>
  C6, as the controller behaves. \<open>Run\<close> of any controller writes its start time to the one
  package variable and changes no filter map; and a create notice that any controller
  then processes (its resource type in the global or the create map, its lookup without
  error) reaches the create handler exactly when the object was created after that
  time. The controller that ran \<open>Run\<close> (\<open>env'\<close>, \<open>c'\<close>) and the controller that
  processes the notice (\<open>env\<close>, \<open>c\<close>) need not be the same.
\<close>

theorem C6_start_time_shared:
  "serverStartTime (fst (state_of (Run env' now synced stopCh (p, c')))) = now
   \<and> global (fst (state_of (Run env' now synced stopCh (p, c')))) = global p
   \<and> create (fst (state_of (Run env' now synced stopCh (p, c')))) = create p
   \<and> (eventType n = ''create'' \<and> GetByKey env (key n) = (obj, ex, None)
        \<and> (global p (resourceType n) \<noteq> None \<or> create p (resourceType n) \<noteq> None) \<longrightarrow>
      handler_calls (snd (processItem env (fst (state_of (Run env' now synced stopCh (p, c')))) n c))
        = handler_calls c
          @ (if now < CreationTimestamp (GetObjectMetaData env obj) then [ObjectCreated obj]
             else []))"
  by (simp add: fst_Run processItem_create)

text \<open>
  The theorem in the example environment: after a \<open>Run\<close> at time 20 a create notice
  for an object created at 15 is suppressed, after a \<open>Run\<close> at time 10 it is forwarded.
\<close>

theorem C6_start_time_shared_witness:
  "handler_calls (snd (processItem demo_env
       (fst (state_of (Run demo_env 20 True 1 (demo_pkg, newResourceController))))
       (demo_notice ''create'') newResourceController)) = []
   \<and> handler_calls (snd (processItem demo_env
       (fst (state_of (Run demo_env 10 True 1 (demo_pkg, newResourceController))))
       (demo_notice ''create'') newResourceController))
     = [ObjectCreated (Some ''default/web'')]"
proof -
  have g: "GetByKey demo_env (key (demo_notice ''create'')) = (Some ''default/web'', True, None)"
    by (simp add: demo_env_def demo_notice_fields)
  have t: "CreationTimestamp (GetObjectMetaData demo_env (Some ''default/web'')) = 15"
    by (simp add: demo_env_def)
  from C6_start_time_shared
    [where env' = demo_env and now = 20 and synced = True and stopCh = 1 and p = demo_pkg
       and c' = newResourceController and n = "demo_notice ''create''" and env = demo_env
       and obj = "Some ''default/web''" and ex = True and c = newResourceController]
    C6_start_time_shared
    [where env' = demo_env and now = 10 and synced = True and stopCh = 1 and p = demo_pkg
       and c' = newResourceController and n = "demo_notice ''create''" and env = demo_env
       and obj = "Some ''default/web''" and ex = True and c = newResourceController]
    g t
  show ?thesis
    by (simp add: demo_notice_fields demo_pkg_fields newResourceController_fields)
qed

text \<open>
  C6 does not hold as the specification states it. Two controllers of the example environment share the
  package variables. The first runs \<open>Run\<close> at time 10 and waits with an empty queue;
  the second runs \<open>Run\<close> at time 20. The informer of the first then reports a pod
  created at time 15, after the first controller's own start. The first controller's
  worker suppresses the notice, because the start time is now 20; had the second
  controller not started, the same notice would have reached the create handler.
\<close>

theorem C6_own_start_time_counterexample:
  "Run demo_env 10 True 1 (demo_pkg, newResourceController)
     = Parked (demo_pkg\<lparr>serverStartTime := 10\<rparr>, newResourceController)
   \<and> Run demo_env 20 True 1 (demo_pkg\<lparr>serverStartTime := 10\<rparr>, newResourceController)
     = Parked (demo_pkg\<lparr>serverStartTime := 20\<rparr>, newResourceController)
   \<and> CreationTimestamp (GetObjectMetaData demo_env (Some ''default/web'')) = 15
   \<and> handler_calls (state_of (runWorker demo_env (demo_pkg\<lparr>serverStartTime := 20\<rparr>)
        (AddFunc demo_env ''pod'' ''default/web'' newResourceController))) = []
   \<and> handler_calls (state_of (runWorker demo_env (demo_pkg\<lparr>serverStartTime := 10\<rparr>)
        (AddFunc demo_env ''pod'' ''default/web'' newResourceController)))
     = [ObjectCreated (Some ''default/web'')]"
proof -
  let ?n = "\<lparr>key = ''default/web'', eventType = ''create'', namespace = '''',
             resourceType = ''pod''\<rparr>"
  let ?c = "AddFunc demo_env ''pod'' ''default/web'' newResourceController :: string Controller"
  have parks: "runWorker demo_env p (newResourceController :: string Controller)
      = Parked newResourceController" for p
    by (rule runWorker_parks) (simp_all add: newResourceController_fields emptyQueue_def)
  have one: "Run demo_env 10 True 1 (demo_pkg, newResourceController)
     = Parked (demo_pkg\<lparr>serverStartTime := 10\<rparr>, newResourceController)"
    by (simp add: Run_def parks)
  have two: "Run demo_env 20 True 1 (demo_pkg\<lparr>serverStartTime := 10\<rparr>, newResourceController)
     = Parked (demo_pkg\<lparr>serverStartTime := 20\<rparr>, newResourceController)"
    by (simp add: Run_def parks)
  have three: "CreationTimestamp (GetObjectMetaData demo_env (Some ''default/web'')) = 15"
    by (simp add: demo_env_def)
  have q: "pending (queue ?c) = [?n]" "held (queue ?c) = []" "\<not> shuttingDown (queue ?c)"
      "handler_calls ?c = []"
    by (simp_all add: AddFunc_def Let_def demo_env_def newResourceController_def Add_def
        emptyQueue_def coalesce_def)
  have g: "GetByKey demo_env (key ?n) = (Some ''default/web'', True, None)"
    by (simp add: demo_env_def)
  have calls: "handler_calls (snd (processItem demo_env (demo_pkg\<lparr>serverStartTime := t\<rparr>) ?n ?c))
      = (if t < 15 then [ObjectCreated (Some ''default/web'')] else [])" for t
    using three by (simp add: processItem_create [OF g] q demo_pkg_def)
  from drain_ok_item [OF g q(1-3), of "demo_pkg\<lparr>serverStartTime := 20\<rparr>"]
  have four: "handler_calls (state_of (runWorker demo_env (demo_pkg\<lparr>serverStartTime := 20\<rparr>) ?c)) = []"
    by (auto simp: calls)
  from drain_ok_item [OF g q(1-3), of "demo_pkg\<lparr>serverStartTime := 10\<rparr>"]
  have five: "handler_calls (state_of (runWorker demo_env (demo_pkg\<lparr>serverStartTime := 10\<rparr>) ?c))
     = [ObjectCreated (Some ''default/web'')]"
    by (auto simp: calls)
  from one two three four five show ?thesis by blast
qed

subsection \<open>The namespace of the envelope\<close>

text \<open>
  For a notice with an empty namespace field the envelope of an update or delete call
  carries the part of the key before the first slash; for a key without a slash that
  is the whole key.
\<close>

lemma envelope_namespace_fallback:
  assumes "namespace n = ''''" and "GetByKey env (key n) = (obj, ex, None)"
    and "global p (resourceType n) \<noteq> None"
  shows "(eventType n = ''update'' \<longrightarrow>
           handler_calls (snd (processItem env p n c)) = handler_calls c @
             [ObjectUpdated obj \<lparr>Kind = resourceType n, Name = key n,
                event_Namespace = takeWhile (\<lambda>x. x \<noteq> CHR ''/'') (key n)\<rparr>])
       \<and> (eventType n = ''delete'' \<longrightarrow>
           handler_calls (snd (processItem env p n c)) = handler_calls c @
             [ObjectDeleted \<lparr>Kind = resourceType n, Name = key n,
                event_Namespace = takeWhile (\<lambda>x. x \<noteq> CHR ''/'') (key n)\<rparr>])
       \<and> (CHR ''/'' \<notin> set (key n) \<longrightarrow> takeWhile (\<lambda>x. x \<noteq> CHR ''/'') (key n) = key n)"
  using assms by (auto simp: processItem_update processItem_delete)

text \<open>
  C9 fails at the following input. The callbacks of one controller share the variable
  \<open>newEvent\<close>, and only \<open>DeleteFunc\<close> writes its namespace field. In the example
  environment the informer reports the deletion of the pod "kube-system/dns" and then
  an update of the pod "default/web": the update notice is queued with the namespace
  "kube-system", so its namespace field is not empty, and the envelope that reaches the
  update handler carries the namespace "kube-system", while the part of the key before
  the slash is "default".
\<close>

theorem C9_stale_namespace_in_update_notice:
  "pending (queue (UpdateFunc demo_env ''pod'' ''default/web'' ''default/web''
       (DeleteFunc demo_env ''pod'' ''kube-system/dns'' newResourceController)))
     = [\<lparr>key = ''kube-system/dns'', eventType = ''delete'', namespace = ''kube-system'',
          resourceType = ''pod''\<rparr>,
        \<lparr>key = ''default/web'', eventType = ''update'', namespace = ''kube-system'',
          resourceType = ''pod''\<rparr>]
   \<and> processItem demo_env demo_pkg
        \<lparr>key = ''default/web'', eventType = ''update'', namespace = ''kube-system'',
          resourceType = ''pod''\<rparr> newResourceController
      = (None, newResourceController\<lparr>handler_calls :=
           [ObjectUpdated (Some ''default/web'')
              \<lparr>Kind = ''pod'', Name = ''default/web'', event_Namespace = ''kube-system''\<rparr>]\<rparr>)
   \<and> takeWhile (\<lambda>x. x \<noteq> CHR ''/'') ''default/web'' = ''default''"
proof -
  let ?u = "\<lparr>key = ''default/web'', eventType = ''update'', namespace = ''kube-system'',
          resourceType = ''pod''\<rparr>"
  have one: "pending (queue (UpdateFunc demo_env ''pod'' ''default/web'' ''default/web''
       (DeleteFunc demo_env ''pod'' ''kube-system/dns'' newResourceController)))
     = [\<lparr>key = ''kube-system/dns'', eventType = ''delete'', namespace = ''kube-system'',
          resourceType = ''pod''\<rparr>, ?u]"
    by (simp add: UpdateFunc_def DeleteFunc_def Let_def demo_env_def newResourceController_def
        Add_def emptyQueue_def coalesce_def)
  have g: "GetByKey demo_env (key ?u) = (Some ''default/web'', True, None)"
    by (simp add: demo_env_def)
  have two: "processItem demo_env demo_pkg ?u newResourceController
      = (None, newResourceController\<lparr>handler_calls :=
           [ObjectUpdated (Some ''default/web'')
              \<lparr>Kind = ''pod'', Name = ''default/web'', event_Namespace = ''kube-system''\<rparr>]\<rparr>)"
    by (simp add: processItem_update [OF g] demo_pkg_fields newResourceController_fields)
  have three: "takeWhile (\<lambda>x. x \<noteq> CHR ''/'') ''default/web'' = ''default''"
    by simp
  from one two three show ?thesis by blast
qed

subsection \<open>Coalescing in the queue\<close>

lemma map_key_coalesce:
  "map key (coalesce n xs) =
     (if key n \<in> set (map key xs) then map key xs else map key xs @ [key n])"
  by (auto simp: coalesce_def)

lemma filter_key_distinct:
  "distinct (map key xs) \<Longrightarrow> m \<in> set xs \<Longrightarrow> filter (\<lambda>x. key x = key m) xs = [m]"
proof (induction xs)
  case Nil
  then show ?case by simp
next
  case (Cons x xs)
  show ?case
  proof (cases "x = m")
    case True
    with Cons.prems have "key m \<notin> set (map key xs)" by simp
    then have "filter (\<lambda>x. key x = key m) xs = []"
      by (rule filter_key_absent)
    with True show ?thesis by simp
  next
    case False
    with Cons.prems have "m \<in> set xs" and "key x \<noteq> key m"
      by (auto simp: image_iff)
    with Cons show ?thesis by simp
  qed
qed

lemma coalesce_only:
  assumes "distinct (map key xs)"
  shows "filter (\<lambda>m. key m = key n) (coalesce n xs) = [n]"
proof -
  have "distinct (map key (coalesce n xs))"
    using assms by (simp add: map_key_coalesce)
  from filter_key_distinct [OF this coalesce_member] show ?thesis .
qed

lemma queue_inv_empty: "queue_inv emptyQueue"
  by (simp add: queue_inv_def emptyQueue_def)

lemma keys_coalesce: "key ` set (coalesce n xs) = insert (key n) (key ` set xs)"
  using arg_cong [OF map_key_coalesce [of n xs], of set] by (auto simp: image_iff)

lemma distinct_coalesce: "distinct (map key xs) \<Longrightarrow> distinct (map key (coalesce n xs))"
  by (simp add: map_key_coalesce)

lemma queue_inv_Add: "queue_inv q \<Longrightarrow> queue_inv (Add n q)"
  by (auto simp: queue_inv_def Add_def distinct_coalesce keys_coalesce)

lemma queue_inv_Get:
  assumes "queue_inv q" and "Get q = Got n q'"
  shows "queue_inv q'"
proof -
  from Get_Got [OF assms(2)] obtain ns where
    ns: "pending q = n # ns" and q': "q' = taken q n ns"
    by blast
  from assms(1) ns have "distinct (map key ns)" "key n \<notin> key ` set ns"
      "distinct (map key (held q))" "key ` set ns \<inter> set (inflight q) = {}"
      "key ` set (held q) \<subseteq> set (inflight q)"
    by (auto simp: queue_inv_def)
  then show ?thesis
    by (auto simp: queue_inv_def q' taken_def)
qed

lemma queue_inv_Done:
  assumes "queue_inv q"
  shows "queue_inv (Done k q)"
proof -
  have d: "distinct (map key (held q))" and p: "distinct (map key (pending q))"
    and i: "set (map key (pending q)) \<inter> set (inflight q) = {}"
    and h: "set (map key (held q)) \<subseteq> set (inflight q)"
    using assms by (simp_all add: queue_inv_def)
  have released: "distinct (map key (filter (\<lambda>m. key m = k) (held q)))"
    using d by (rule distinct_map_filter)
  have kept: "distinct (map key (filter (\<lambda>m. key m \<noteq> k) (held q)))"
    using d by (rule distinct_map_filter)
  have apart: "set (map key (pending q)) \<inter> set (map key (filter (\<lambda>m. key m = k) (held q))) = {}"
    using i h by auto
  show ?thesis
    using p released kept apart i h
    by (auto simp: queue_inv_def Done_def)
qed

lemma queue_inv_Forget: "queue_inv q \<Longrightarrow> queue_inv (Forget k q)"
  by (simp add: queue_inv_def Forget_def)

lemma queue_inv_AddRateLimited: "queue_inv q \<Longrightarrow> queue_inv (AddRateLimited n q)"
proof -
  assume "queue_inv q"
  then have "queue_inv (q\<lparr>requeues := (requeues q)(key n := requeues q (key n) + 1)\<rparr>)"
    by (simp add: queue_inv_def)
  then show ?thesis
    unfolding AddRateLimited_def by (rule queue_inv_Add)
qed

lemma queue_inv_ShutDown: "queue_inv q \<Longrightarrow> queue_inv (ShutDown q)"
  by (simp add: queue_inv_def ShutDown_def)

lemma reachable_inv: "reachable q \<Longrightarrow> queue_inv q"
  by (induction rule: reachable.induct)
    (simp_all add: queue_inv_empty queue_inv_Add queue_inv_Get queue_inv_Done
      queue_inv_Forget queue_inv_AddRateLimited queue_inv_ShutDown)

text \<open>
  C1. In every queue that can arise from the empty queue, no two waiting notices have
  the same key. When two notices with one key, not in flight, are added one after the
  other, exactly one notice with that key waits afterwards, and it is the second one.
  When they are added to the empty queue, the next \<open>get\<close> hands out the second notice
  and leaves nothing waiting.
\<close>

theorem C1_coalescing_by_key:
  assumes "reachable q"
  shows "distinct (map key (pending q))
       \<and> (key u = key d \<and> key d \<notin> set (inflight q) \<longrightarrow>
            filter (\<lambda>m. key m = key d) (pending (Add d (Add u q))) = [d])
       \<and> (key u = key d \<longrightarrow>
            Get (Add d (Add u emptyQueue)) = Got d (emptyQueue\<lparr>inflight := [key d]\<rparr>))"
proof (intro conjI impI)
  have inv: "queue_inv q"
    using assms by (rule reachable_inv)
  then show "distinct (map key (pending q))"
    by (simp add: queue_inv_def)
  assume a: "key u = key d \<and> key d \<notin> set (inflight q)"
  have "distinct (map key (pending (Add u q)))"
    using queue_inv_Add [OF inv, of u] by (simp add: queue_inv_def)
  moreover have "pending (Add d (Add u q)) = coalesce d (pending (Add u q))"
    using a by (simp add: Add_def)
  ultimately show "filter (\<lambda>m. key m = key d) (pending (Add d (Add u q))) = [d]"
    by (simp add: coalesce_only)
next
  assume "key u = key d"
  then show "Get (Add d (Add u emptyQueue)) = Got d (emptyQueue\<lparr>inflight := [key d]\<rparr>)"
    by (simp add: Add_def emptyQueue_def coalesce_def Get_def)
qed

text \<open>
  The theorem for the callbacks of a new controller in the example environment: the
  informer reports an update and then the deletion of the pod "default/web" before any
  \<open>get\<close>. One notice waits, of kind delete, and \<open>get\<close> hands it out.
\<close>

theorem C1_coalescing_by_key_witness:
  "reachable emptyQueue
   \<and> pending (queue (DeleteFunc demo_env ''pod'' ''default/web''
        (UpdateFunc demo_env ''pod'' ''default/web'' ''default/web'' newResourceController)))
     = [\<lparr>key = ''default/web'', eventType = ''delete'', namespace = ''default'',
          resourceType = ''pod''\<rparr>]
   \<and> Get (queue (DeleteFunc demo_env ''pod'' ''default/web''
        (UpdateFunc demo_env ''pod'' ''default/web'' ''default/web'' newResourceController)))
     = Got \<lparr>key = ''default/web'', eventType = ''delete'', namespace = ''default'',
            resourceType = ''pod''\<rparr>
         (emptyQueue\<lparr>inflight := [''default/web'']\<rparr>)"
proof -
  let ?u = "\<lparr>key = ''default/web'', eventType = ''update'', namespace = '''',
             resourceType = ''pod''\<rparr>"
  let ?d = "\<lparr>key = ''default/web'', eventType = ''delete'', namespace = ''default'',
             resourceType = ''pod''\<rparr>"
  have cb: "queue (DeleteFunc demo_env ''pod'' ''default/web''
        (UpdateFunc demo_env ''pod'' ''default/web'' ''default/web'' newResourceController))
      = Add ?d (Add ?u emptyQueue)"
    by (simp add: UpdateFunc_def DeleteFunc_def Let_def demo_env_def newResourceController_def)
  have k: "key ?u = key ?d" "key ?d \<notin> set (inflight emptyQueue)"
    by (simp_all add: emptyQueue_def)
  have e: "pending (Add ?d (Add ?u emptyQueue)) = [?d]"
    by (simp add: Add_def emptyQueue_def coalesce_def)
  from C1_coalescing_by_key [OF reachable_empty, of ?u ?d] k
  have "filter (\<lambda>m. key m = key ?d) (pending (Add ?d (Add ?u emptyQueue))) = [?d]"
    and "Get (Add ?d (Add ?u emptyQueue)) = Got ?d (emptyQueue\<lparr>inflight := [key ?d]\<rparr>)"
    by blast+
  then show ?thesis
    using reachable_empty by (simp add: cb e)
qed

end
